theory Spec2Isabelle
  imports
    Main
    "HOL-Library.AList"
    "HOL-Library.Char_ord"
    "HOL-Library.List_Lexorder"
    "HOL-Library.Monad_Syntax"
    "HOL-Library.Sublist"
begin

section \<open>The hierarchical drill-down crosstab (hierarchical-crosstab.js)\<close>

text \<open>
  The extension reads the columns and rows of a worksheet, classifies the columns
  (\<open>identifyFieldTypes\<close>), nests the rows into a tree keyed by the values of the
  hierarchy columns (\<open>buildHierarchicalTree\<close>), and paints the part of the tree that
  the set \<open>expandedNodes\<close> opens (\<open>renderTable\<close>, \<open>renderTreeLevel\<close>); a click on a
  row toggles its entry in that set (\<open>toggleNode\<close>).

  Strings are lists of characters, compared as JavaScript compares strings: code unit
  by code unit, a proper prefix first (the lexicographic order of lists over the order
  of characters).
\<close>

subsection \<open>Values, columns and fields\<close>

text \<open>
  The \<open>value\<close> of a cell of the data source: \<open>null\<close>, \<open>undefined\<close>, a string, a
  number or a boolean. The program never computes with a number, it stores it and uses
  it as a property key, so the type of numbers is a parameter \<open>'n\<close>, and the conversion
  of a number to a string (\<open>ToString\<close> of the language) is a parameter of the functions
  that use a cell as a key.
\<close>

datatype 'n jsval = JNull | JUndefined | JString string | JNumber 'n | JBoolean bool

text \<open>An exception: a \<open>TypeError\<close> of the engine, or the rejection of the data reader.\<close>

datatype error = TypeError | Rejected string

record field =
  index :: nat
  fieldName :: string

record column = field +
  dataType :: string

text \<open>A row is the array of its cells; a page of the reader holds rows.\<close>

type_synonym 'n row = "'n jsval list"

record 'n dataTable =
  columns :: "column list"
  pages :: "'n row list list"

subsection \<open>The tree\<close>

text \<open>
  An object used as a dictionary is an association list in insertion order, with one
  entry for each own property. A node is the object literal of lines 124 to 130.
\<close>

datatype 'n node =
  Node (name: "'n jsval") (level: nat) (measures: "(string \<times> 'n jsval) list")
       (children: "(string \<times> 'n node) list") (hasChildren: bool)

type_synonym 'n tree = "(string \<times> 'n node) list"

subsection \<open>The rendered table and the state of the module\<close>

text \<open>
  A row of the table body, as \<open>renderTreeLevel\<close> makes it: the attributes \<open>data-level\<close>
  and \<open>data-path\<close>, the class \<open>expanded\<close>, whether it shows the expand icon, the click
  handler if it has one (the path that the handler passes to \<open>toggleNode\<close>), and the
  name shown. \<open>row_path\<close> is the local \<open>currentPath\<close> the row was made for. The measure
  cells of the row (lines 246 to 256) hold a locale formatting of the stored numbers and
  are not modelled.
\<close>

record 'n tr =
  data_level :: nat
  data_path :: string
  expanded :: bool
  expand_icon :: bool
  onclick :: "string list option"
  nameSpan :: "'n jsval"
  row_path :: "string list"

record 'n crosstab =
  table_head :: "string list option"
  table_body :: "'n tr list option"

text \<open>The three messages that \<open>showError\<close> is called with (lines 44, 49 and 78).\<close>

datatype banner = NoHierarchyFieldsError | NoMeasureFieldsError | DataLoadError error

record 'n state =
  hierarchyFields :: "field list"
  measureFields :: "field list"
  fullDataTree :: "'n tree option"
  expandedNodes :: "string list"
  table :: "'n crosstab"
  error_div :: "banner option"
  loading :: bool
  container :: bool

subsection \<open>identifyFieldTypes\<close>

definition pushField :: "column \<Rightarrow> field list \<Rightarrow> field list" where
  "pushField col fs = fs @ [\<lparr>index = index col, fieldName = fieldName col\<rparr>]"

definition identifyColumn :: "column \<Rightarrow> 'n state \<Rightarrow> 'n state" where
  "identifyColumn col st =
     (if dataType col = ''string'' \<or> dataType col = ''date-time'' \<or> dataType col = ''date''
      then st\<lparr>hierarchyFields := pushField col (hierarchyFields st)\<rparr>
      else if dataType col = ''float'' \<or> dataType col = ''int''
      then st\<lparr>measureFields := pushField col (measureFields st)\<rparr>
      else st)"

definition identifyFieldTypes :: "column list \<Rightarrow> 'n state \<Rightarrow> 'n state" where
  "identifyFieldTypes cols st =
     fold identifyColumn cols (st\<lparr>hierarchyFields := [], measureFields := []\<rparr>)"

text \<open>The classification as the specification words it.\<close>

definition toField :: "column \<Rightarrow> field" where
  "toField col = \<lparr>index = index col, fieldName = fieldName col\<rparr>"

definition isHierarchyType :: "string \<Rightarrow> bool" where
  "isHierarchyType t = (t \<in> {''string'', ''date'', ''date-time''})"

definition isMeasureType :: "string \<Rightarrow> bool" where
  "isMeasureType t = (t \<in> {''int'', ''float''})"

subsection \<open>buildHierarchicalTree\<close>

text \<open>
  \<open>row[i].value\<close>. Beyond the end of the row \<open>row[i]\<close> is \<open>undefined\<close> and reading its
  \<open>value\<close> throws a \<open>TypeError\<close>. In this section \<open>None\<close> is that outcome: the
  exception leaves \<open>buildHierarchicalTree\<close>, and the tree under construction, a local
  of it, is lost.
\<close>

definition cell :: "'n row \<Rightarrow> nat \<Rightarrow> 'n jsval option" where
  "cell row i = (if i < length row then Some (row ! i) else None)"

text \<open>The test of line 118.\<close>

definition isNullValue :: "'n jsval \<Rightarrow> bool" where
  "isNullValue v = (v = JNull \<or> v = JUndefined \<or> v = JString ''%null%'')"

text \<open>The property key that \<open>currentLevel[value]\<close> uses: the value as a string.\<close>

fun ToPropertyKey :: "('n \<Rightarrow> string) \<Rightarrow> 'n jsval \<Rightarrow> string" where
  "ToPropertyKey S (JString s) = s"
| "ToPropertyKey S (JNumber n) = S n"
| "ToPropertyKey S (JBoolean b) = (if b then ''true'' else ''false'')"
| "ToPropertyKey S JNull = ''null''"
| "ToPropertyKey S JUndefined = ''undefined''"

text \<open>
  \<open>tree\<close> and every \<open>children\<close> are created by \<open>{}\<close>, so a key that is not an own
  property is looked up in \<open>Object.prototype\<close>. Its members are functions, and
  \<open>__proto__\<close> reads as \<open>Object.prototype\<close> itself: all of them are truthy, and none of
  them has a property \<open>measures\<close> or \<open>children\<close>.
\<close>

definition object_prototype_keys :: "string list" where
  "object_prototype_keys =
     [''constructor'', ''__defineGetter__'', ''__defineSetter__'', ''hasOwnProperty'',
      ''__lookupGetter__'', ''__lookupSetter__'', ''isPrototypeOf'', ''propertyIsEnumerable'',
      ''toString'', ''valueOf'', ''__proto__'', ''toLocaleString'']"

text \<open>
  \<open>measures[fieldName] = measureValue\<close> on a \<open>measures\<close> created by \<open>{}\<close>. The name
  \<open>__proto__\<close> is the accessor of \<open>Object.prototype\<close>, whose setter ignores a value
  that is not an object: nothing is stored.
\<close>

definition setMeasure :: "string \<Rightarrow> 'n jsval \<Rightarrow> (string \<times> 'n jsval) list \<Rightarrow> (string \<times> 'n jsval) list" where
  "setMeasure k v ms = (if k = ''__proto__'' then ms else AList.update k v ms)"

text \<open>The loop of lines 134 to 139 on the \<open>measures\<close> of a node.\<close>

fun storeMeasures :: "'n row \<Rightarrow> field list \<Rightarrow> (string \<times> 'n jsval) list \<Rightarrow> (string \<times> 'n jsval) list option" where
  "storeMeasures row [] ms = Some ms"
| "storeMeasures row (m # rest) ms =
     do {
       measureValue \<leftarrow> cell row (index m);
       storeMeasures row rest
         (if measureValue \<noteq> JNull \<and> measureValue \<noteq> JUndefined
          then setMeasure (fieldName m) measureValue ms else ms)
     }"

text \<open>
  The same loop when \<open>currentLevel[value]\<close> is a member of \<open>Object.prototype\<close>: its
  \<open>measures\<close> is \<open>undefined\<close>, and the first store throws.
\<close>

fun storeMeasures_undefined :: "'n row \<Rightarrow> field list \<Rightarrow> unit option" where
  "storeMeasures_undefined row [] = Some ()"
| "storeMeasures_undefined row (m # rest) =
     do {
       measureValue \<leftarrow> cell row (index m);
       if measureValue \<noteq> JNull \<and> measureValue \<noteq> JUndefined then None
       else storeMeasures_undefined row rest
     }"

text \<open>
  The rest of \<open>hierarchyFields.forEach\<close> once \<open>currentLevel\<close> is \<open>undefined\<close> (the
  \<open>children\<close> of a member of \<open>Object.prototype\<close>): a null value is skipped, any other
  value reads a property of \<open>undefined\<close> and throws.
\<close>

fun descend_undefined :: "'n row \<Rightarrow> (nat \<times> field) list \<Rightarrow> unit option" where
  "descend_undefined row [] = Some ()"
| "descend_undefined row ((levelIndex, fld) # rest) =
     do {
       v \<leftarrow> cell row (index fld);
       if isNullValue v then descend_undefined row rest else None
     }"

text \<open>
  \<open>hierarchyFields.forEach((field, levelIndex) => ...)\<close> for one row, from the entry
  \<open>(levelIndex, fld)\<close> on, with the cursor \<open>currentLevel\<close> at an object of the tree.
  The cursor only moves down, into the \<open>children\<close> of the node it has just visited, so
  the stores through it are the stores into that node: the function returns the object
  at the cursor as the rest of the row leaves it. \<open>n\<close> is \<open>hierarchyFields.length\<close>.
  The \<open>return\<close> of line 119 ends the callback of this field, and \<open>forEach\<close> goes on
  with the next field and the same cursor.
\<close>

fun descend :: "('n \<Rightarrow> string) \<Rightarrow> nat \<Rightarrow> field list \<Rightarrow> 'n row \<Rightarrow> (nat \<times> field) list \<Rightarrow> 'n tree \<Rightarrow> 'n tree option" where
  "descend S n mf row [] currentLevel = Some currentLevel"
| "descend S n mf row ((levelIndex, fld) # rest) currentLevel =
     do {
       v \<leftarrow> cell row (index fld);
       if isNullValue v then descend S n mf row rest currentLevel
       else
         let key = ToPropertyKey S v; own = map_of currentLevel key in
         if own = None \<and> key \<in> set object_prototype_keys then
           do {
             _ \<leftarrow> storeMeasures_undefined row mf;
             _ \<leftarrow> descend_undefined row rest;
             Some currentLevel
           }
         else
           do {
             let node = (case own of
                 None \<Rightarrow> Node v levelIndex [] [] (int levelIndex < int n - 1)
               | Some nd \<Rightarrow> nd);
             ms \<leftarrow> storeMeasures row mf (measures node);
             ch \<leftarrow> descend S n mf row rest (children node);
             Some (AList.update key (Node (name node) (level node) ms ch (hasChildren node)) currentLevel)
           }
     }"

text \<open>The callback of \<open>data.forEach\<close>: one row, the cursor starting at \<open>tree\<close>.\<close>

definition addRow :: "('n \<Rightarrow> string) \<Rightarrow> field list \<Rightarrow> field list \<Rightarrow> 'n row \<Rightarrow> 'n tree \<Rightarrow> 'n tree option" where
  "addRow S hf mf row tree = descend S (length hf) mf row (enumerate 0 hf) tree"

fun addRows :: "('n \<Rightarrow> string) \<Rightarrow> field list \<Rightarrow> field list \<Rightarrow> 'n row list \<Rightarrow> 'n tree \<Rightarrow> 'n tree option" where
  "addRows S hf mf [] tree = Some tree"
| "addRows S hf mf (row # rows) tree =
     do { tree' \<leftarrow> addRow S hf mf row tree; addRows S hf mf rows tree' }"

text \<open>
  \<open>buildHierarchicalTree(data)\<close>, with the globals \<open>hierarchyFields\<close> and
  \<open>measureFields\<close> that it reads as arguments.
\<close>

definition buildHierarchicalTree :: "('n \<Rightarrow> string) \<Rightarrow> field list \<Rightarrow> field list \<Rightarrow> 'n row list \<Rightarrow> 'n tree option" where
  "buildHierarchicalTree S hf mf data = addRows S hf mf data []"

subsection \<open>renderTreeLevel and renderTable\<close>

text \<open>\<open>path.join('|')\<close> on an array of strings.\<close>

fun join :: "string list \<Rightarrow> string" where
  "join [] = []"
| "join [x] = x"
| "join (x # y # ys) = x @ ''|'' @ join (y # ys)"

lemma map_of_children_smaller:
  "map_of t k = Some nd \<Longrightarrow>
     size_list (size_prod (\<lambda>_. 0) size) (children nd) < size_list (size_prod (\<lambda>_. 0) size) t"
proof (induction t)
  case Nil
  then show ?case by simp
next
  case (Cons p t)
  have "size_list (size_prod (\<lambda>_. 0) size) (children nd) < size nd"
    by (cases nd) simp
  with Cons show ?case
    by (cases p) (auto split: if_splits)
qed

text \<open>
  \<open>renderTreeLevel(treeLevel, tbody, level, path)\<close>; the set \<open>expandedNodes\<close> that it
  reads is the first argument, \<open>rows\<close> is the list of the rows of \<open>tbody\<close>, and the
  result is that list after the call. \<open>Object.keys(treeLevel).sort()\<close> is the sorted list
  of the keys.
\<close>

function renderTreeLevel :: "string list \<Rightarrow> 'n tree \<Rightarrow> 'n tr list \<Rightarrow> nat \<Rightarrow> string list \<Rightarrow> 'n tr list" where
  "renderTreeLevel expanded_nodes treeLevel rows lvl path =
     fold (\<lambda>key rows.
        case map_of treeLevel key of
          None \<Rightarrow> rows
        | Some node \<Rightarrow>
            let currentPath = path @ [key];
                pathKey = join currentPath;
                isExpanded = (pathKey \<in> set expanded_nodes);
                expandable = (hasChildren node \<and> length (children node) > 0);
                row = \<lparr>data_level = lvl, data_path = pathKey, expanded = isExpanded,
                       expand_icon = expandable,
                       onclick = (if expandable then Some currentPath else None),
                       nameSpan = name node, row_path = currentPath\<rparr>;
                rows' = rows @ [row]
            in if isExpanded \<and> hasChildren node \<and> length (children node) > 0
               then renderTreeLevel expanded_nodes (children node) rows' (lvl + 1) currentPath
               else rows')
       (sort (map fst treeLevel)) rows"
  by pat_completeness auto
termination
  by (relation "measure (\<lambda>(e, t, b, l, p). size_list (size_prod (\<lambda>_. 0) size) t)")
     (auto simp: map_of_children_smaller)

text \<open>
  \<open>renderTable()\<close> on the state of the module. It empties the table first; an empty
  \<open>hierarchyFields\<close> makes \<open>hierarchyFields[0].fieldName\<close> throw before the header is
  attached, a \<open>fullDataTree\<close> that is still \<open>null\<close> makes \<open>Object.keys\<close> throw before
  the body is attached. The result is the exception thrown, if any, and the state as the
  call leaves it.
\<close>

definition renderTable :: "'n state \<Rightarrow> error option \<times> 'n state" where
  "renderTable st =
     (let st1 = st\<lparr>table := \<lparr>table_head = None, table_body = None\<rparr>\<rparr> in
      case hierarchyFields st of
        [] \<Rightarrow> (Some TypeError, st1)
      | f0 # _ \<Rightarrow>
          let headerRow = fieldName f0 # map fieldName (measureFields st);
              st2 = st1\<lparr>table := \<lparr>table_head = Some headerRow, table_body = None\<rparr>\<rparr>
          in case fullDataTree st of
               None \<Rightarrow> (Some TypeError, st2)
             | Some tree \<Rightarrow>
                 (None, st2\<lparr>table := \<lparr>table_head = Some headerRow,
                     table_body = Some (renderTreeLevel (expandedNodes st) tree [] 0 [])\<rparr>\<rparr>))"

subsection \<open>toggleNode\<close>

text \<open>
  The set \<open>expandedNodes\<close> is the list of its members in insertion order: \<open>has\<close> is
  membership, \<open>add\<close> of a new member appends it, \<open>delete\<close> removes the member.
\<close>

definition toggleNode :: "string list \<Rightarrow> 'n state \<Rightarrow> error option \<times> 'n state" where
  "toggleNode path st =
     (let pathKey = join path in
      renderTable (st\<lparr>expandedNodes :=
        (if pathKey \<in> set (expandedNodes st)
         then
           let pathsToRemove =
                 filter (\<lambda>p. p = pathKey \<or> prefix (pathKey @ ''|'') p) (expandedNodes st)
           in fold (\<lambda>p. removeAll p) pathsToRemove (expandedNodes st)
         else expandedNodes st @ [pathKey])\<rparr>))"

subsection \<open>showError and loadData\<close>

definition showError :: "banner \<Rightarrow> 'n state \<Rightarrow> 'n state" where
  "showError message st = st\<lparr>error_div := Some message, loading := False\<rparr>"

text \<open>
  \<open>loadData()\<close>. The argument \<open>reader\<close> is what awaiting the data reader gives: a
  rejection, which the \<open>catch\<close> of line 76 reports, or the table with its columns and
  pages; releasing the reader (line 59) is taken to succeed. Every exception inside the
  \<open>try\<close> ends in the same \<open>catch\<close>.
\<close>

definition loadData :: "('n \<Rightarrow> string) \<Rightarrow> error + 'n dataTable \<Rightarrow> 'n state \<Rightarrow> 'n state" where
  "loadData S reader st =
     (case reader of
        Inl err \<Rightarrow> showError (DataLoadError err) st
      | Inr dataTable \<Rightarrow>
          let st1 = identifyFieldTypes (columns dataTable) st in
          if length (hierarchyFields st1) = 0 then showError NoHierarchyFieldsError st1
          else if length (measureFields st1) = 0 then showError NoMeasureFieldsError st1
          else
            let allData = fold (\<lambda>page allData. allData @ page) (pages dataTable) [] in
            case buildHierarchicalTree S (hierarchyFields st1) (measureFields st1) allData of
              None \<Rightarrow> showError (DataLoadError TypeError) st1
            | Some tree \<Rightarrow>
                (case renderTable (st1\<lparr>fullDataTree := Some tree\<rparr>) of
                   (Some err, st3) \<Rightarrow> showError (DataLoadError err) st3
                 | (None, st3) \<Rightarrow> st3\<lparr>loading := False, container := True\<rparr>))"

text \<open>
  The state before \<open>loadData\<close>: the globals as lines 10 to 14 initialise them, an empty
  table, no error shown, the loading element shown and the container hidden.
\<close>

definition initial_state :: "'n state" where
  "initial_state =
     \<lparr>hierarchyFields = [], measureFields = [], fullDataTree = None, expandedNodes = [],
      table = \<lparr>table_head = None, table_body = None\<rparr>, error_div = None,
      loading = True, container = False\<rparr>"

subsection \<open>The projection as the specification words it\<close>

text \<open>
  The node at a path of keys from the root, and the row that stands for a node.
\<close>

fun lookup_path :: "'n tree \<Rightarrow> string list \<Rightarrow> 'n node option" where
  "lookup_path t [] = None"
| "lookup_path t [k] = map_of t k"
| "lookup_path t (k # k' # ks) =
     (case map_of t k of None \<Rightarrow> None | Some nd \<Rightarrow> lookup_path (children nd) (k' # ks))"

definition makeRow :: "string list \<Rightarrow> 'n node \<Rightarrow> nat \<Rightarrow> string list \<Rightarrow> 'n tr" where
  "makeRow E nd lvl p =
     \<lparr>data_level = lvl, data_path = join p, expanded = (join p \<in> set E),
      expand_icon = (hasChildren nd \<and> children nd \<noteq> []),
      onclick = (if hasChildren nd \<and> children nd \<noteq> [] then Some p else None),
      nameSpan = name nd, row_path = p\<rparr>"





subsection \<open>Notions for the statements about the tree\<close>

text \<open>
  The node that the callback of \<open>hierarchyFields.forEach\<close> works on at the cursor: the
  own property \<open>currentLevel[value]\<close>, or the object that lines 124 to 130 create.
\<close>

definition nodeAt :: "'n tree \<Rightarrow> string \<Rightarrow> 'n jsval \<Rightarrow> nat \<Rightarrow> nat \<Rightarrow> 'n node" where
  "nodeAt cur key v levelIndex n =
     (case map_of cur key of
        None \<Rightarrow> Node v levelIndex [] [] (int levelIndex < int n - 1)
      | Some nd \<Rightarrow> nd)"

text \<open>
  \<open>nd'\<close> is \<open>nd\<close> after further rows: the same \<open>name\<close>, \<open>level\<close> and \<open>hasChildren\<close>, and
  no measure name and no child key lost.
\<close>

definition same_node :: "'n node \<Rightarrow> 'n node \<Rightarrow> bool" where
  "same_node nd nd' =
     (name nd' = name nd \<and> level nd' = level nd \<and> hasChildren nd' = hasChildren nd \<and>
      fst ` set (measures nd) \<subseteq> fst ` set (measures nd') \<and>
      fst ` set (children nd) \<subseteq> fst ` set (children nd'))"

text \<open>
  The depth of a tree: the number of nodes on its longest path from a child of the root
  downwards.
\<close>

fun node_depth :: "'n node \<Rightarrow> nat" where
  "node_depth (Node nm lv ms ch hc) = Suc (Max (insert 0 (node_depth ` snd ` set ch)))"

definition tree_depth :: "'n tree \<Rightarrow> nat" where
  "tree_depth t = Max (insert 0 (node_depth ` snd ` set t))"

text \<open>
  \<open>levels_within n d nd\<close>: the node \<open>nd\<close>, with \<open>d\<close> nodes above it, and every node below it
  has a level field that is at least the number of nodes above it and less than \<open>n\<close>.
\<close>

fun levels_within :: "nat \<Rightarrow> nat \<Rightarrow> 'n node \<Rightarrow> bool" where
  "levels_within n d (Node nm lv ms ch hc) =
     (d \<le> lv \<and> lv < n \<and> (\<forall>c \<in> snd ` set ch. levels_within n (Suc d) c))"

text \<open>Every child of a node of level \<open>L\<close> has level \<open>L + 1\<close>, in the whole subtree.\<close>

fun child_levels :: "'n node \<Rightarrow> bool" where
  "child_levels (Node nm lv ms ch hc) = (\<forall>c \<in> snd ` set ch. level c = Suc lv \<and> child_levels c)"

text \<open>The level field of every node is the number of nodes above it.\<close>

fun levels_exact :: "nat \<Rightarrow> 'n node \<Rightarrow> bool" where
  "levels_exact d (Node nm lv ms ch hc) = (lv = d \<and> (\<forall>c \<in> snd ` set ch. levels_exact (Suc d) c))"

text \<open>
  The value stored for the measure name \<open>m\<close> at the node of path \<open>p\<close>, if there is
  such a node and it has an entry for \<open>m\<close>.
\<close>

definition value_at :: "'n tree \<Rightarrow> string list \<Rightarrow> string \<Rightarrow> 'n jsval option" where
  "value_at t p m = (case lookup_path t p of None \<Rightarrow> None | Some nd \<Rightarrow> map_of (measures nd) m)"

text \<open>
  The value that a row has for the measure name \<open>m\<close>, read from its cells: the cell of
  the last measure field named \<open>m\<close> whose cell is neither null nor undefined. Nothing
  for the name \<open>__proto__\<close>, and nothing when every cell for \<open>m\<close> is null, undefined or
  missing.
\<close>

fun written :: "'n row \<Rightarrow> field list \<Rightarrow> string \<Rightarrow> 'n jsval option" where
  "written row [] m = None"
| "written row (f # fs) m =
     (case written row fs m of
        Some v \<Rightarrow> Some v
      | None \<Rightarrow>
          if fieldName f = m \<and> m \<noteq> ''__proto__'' then
            (case cell row (index f) of
               None \<Rightarrow> None
             | Some v \<Rightarrow> if v \<noteq> JNull \<and> v \<noteq> JUndefined then Some v else None)
          else None)"

text \<open>
  The path of a row: the keys of its hierarchy cells that are not null, in the order of
  the hierarchy fields.
\<close>

fun rowKeys :: "('n \<Rightarrow> string) \<Rightarrow> 'n row \<Rightarrow> field list \<Rightarrow> string list" where
  "rowKeys S row [] = []"
| "rowKeys S row (f # fs) =
     (case cell row (index f) of
        None \<Rightarrow> []
      | Some v \<Rightarrow> if isNullValue v then rowKeys S row fs else ToPropertyKey S v # rowKeys S row fs)"

text \<open>
  Last write wins, as the specification words it: the value for \<open>m\<close> of the last row
  in input order whose path passes through \<open>p\<close> and that has a value for \<open>m\<close>.
\<close>

fun last_write :: "('n \<Rightarrow> string) \<Rightarrow> field list \<Rightarrow> field list \<Rightarrow> 'n row list \<Rightarrow> string list \<Rightarrow> string \<Rightarrow> 'n jsval option" where
  "last_write S hf mf [] p m = None"
| "last_write S hf mf (row # rows) p m =
     (case last_write S hf mf rows p m of
        Some v \<Rightarrow> Some v
      | None \<Rightarrow> if p \<noteq> [] \<and> prefix p (rowKeys S row hf) then written row mf m else None)"

text \<open>
  Every null hierarchy cell of the row is followed by null hierarchy cells only: no
  level is skipped before a level that has a value. A cell that the row does not have
  (the build throws on it) constrains nothing.
\<close>

fun nulls_last :: "'n row \<Rightarrow> field list \<Rightarrow> bool" where
  "nulls_last row [] = True"
| "nulls_last row (f # fs) =
     ((case cell row (index f) of
         None \<Rightarrow> True
       | Some v \<Rightarrow>
           isNullValue v \<longrightarrow>
             (\<forall>g \<in> set fs. case cell row (index g) of None \<Rightarrow> True | Some w \<Rightarrow> isNullValue w)) \<and>
      nulls_last row fs)"

text \<open>
  An object has one entry for each own property: the keys of every \<open>children\<close> are
  distinct, in the whole subtree.
\<close>

fun distinct_keys :: "'n node \<Rightarrow> bool" where
  "distinct_keys (Node nm lv ms ch hc) =
     (distinct (map fst ch) \<and> (\<forall>c \<in> snd ` set ch. distinct_keys c))"

subsection \<open>Concrete inputs\<close>

text \<open>
  \<open>ToString\<close> on a number that is an integer of moderate size: its decimal digits, after
  a minus sign when it is negative.
\<close>

fun digits :: "nat \<Rightarrow> string" where
  "digits n =
     (if n < 10 then [char_of (48 + n)] else digits (n div 10) @ [char_of (48 + n mod 10)])"

declare digits.simps [simp del]

definition ToString_int :: "int \<Rightarrow> string" where
  "ToString_int i = (if i < 0 then ''-'' @ digits (nat (- i)) else digits (nat i))"

text \<open>
  The input of the end-to-end example of the specification: the columns \<open>country\<close>,
  \<open>state\<close> and \<open>sales\<close>, and the rows \<open>("US","CA",100)\<close>, \<open>("US","TX",50)\<close> and
  \<open>("CA","ON",30)\<close>, on one page.
\<close>

definition example_columns :: "column list" where
  "example_columns =
     [\<lparr>index = 0, fieldName = ''country'', dataType = ''string''\<rparr>,
      \<lparr>index = 1, fieldName = ''state'', dataType = ''string''\<rparr>,
      \<lparr>index = 2, fieldName = ''sales'', dataType = ''int''\<rparr>]"

definition example_rows :: "int row list" where
  "example_rows =
     [[JString ''US'', JString ''CA'', JNumber 100],
      [JString ''US'', JString ''TX'', JNumber 50],
      [JString ''CA'', JString ''ON'', JNumber 30]]"

definition example_hierarchyFields :: "field list" where
  "example_hierarchyFields =
     [\<lparr>index = 0, fieldName = ''country''\<rparr>, \<lparr>index = 1, fieldName = ''state''\<rparr>]"

definition example_measureFields :: "field list" where
  "example_measureFields = [\<lparr>index = 2, fieldName = ''sales''\<rparr>]"



section \<open>Properties\<close>

subsection \<open>Classification\<close>

lemma fold_identifyColumn_hierarchy:
  "hierarchyFields (fold identifyColumn cols st) =
     hierarchyFields st @ map toField (filter (\<lambda>c. isHierarchyType (dataType c)) cols)"
  by (induction cols arbitrary: st)
     (auto simp: identifyColumn_def pushField_def toField_def isHierarchyType_def)

lemma fold_identifyColumn_measure:
  "measureFields (fold identifyColumn cols st) =
     measureFields st @ map toField (filter (\<lambda>c. isMeasureType (dataType c)) cols)"
  by (induction cols arbitrary: st)
     (auto simp: identifyColumn_def pushField_def toField_def isMeasureType_def)


text \<open>
  C8. \<open>identifyFieldTypes\<close> puts exactly the columns whose type is \<open>string\<close>, \<open>date\<close> or
  \<open>date-time\<close> into \<open>hierarchyFields\<close> and exactly those whose type is \<open>int\<close> or
  \<open>float\<close> into \<open>measureFields\<close>, each in the order of the columns; a column of any
  other type is in neither list: the lists are the same with and without it.
\<close>

theorem identifyFieldTypes_partition:
  "hierarchyFields (identifyFieldTypes cols st) =
     map toField (filter (\<lambda>c. isHierarchyType (dataType c)) cols) \<and>
   measureFields (identifyFieldTypes cols st) =
     map toField (filter (\<lambda>c. isMeasureType (dataType c)) cols) \<and>
   (\<not> isHierarchyType (dataType c) \<and> \<not> isMeasureType (dataType c) \<longrightarrow>
      hierarchyFields (identifyFieldTypes (cols @ c # cols') st) =
        hierarchyFields (identifyFieldTypes (cols @ cols') st) \<and>
      measureFields (identifyFieldTypes (cols @ c # cols') st) =
        measureFields (identifyFieldTypes (cols @ cols') st))"
proof -
  have h: "hierarchyFields (identifyFieldTypes cs st) =
             map toField (filter (\<lambda>c. isHierarchyType (dataType c)) cs)" for cs
    unfolding identifyFieldTypes_def fold_identifyColumn_hierarchy by simp
  have m: "measureFields (identifyFieldTypes cs st) =
             map toField (filter (\<lambda>c. isMeasureType (dataType c)) cs)" for cs
    unfolding identifyFieldTypes_def fold_identifyColumn_measure by simp
  show ?thesis
    unfolding h m by simp
qed

theorem identifyFieldTypes_partition_witness:
  "\<not> isHierarchyType ''bool'' \<and> \<not> isMeasureType ''bool'' \<and>
   hierarchyFields (identifyFieldTypes
       (example_columns @ \<lparr>index = 3, fieldName = ''flag'', dataType = ''bool''\<rparr> # [])
       (initial_state :: int state)) = example_hierarchyFields \<and>
   measureFields (identifyFieldTypes
       (example_columns @ \<lparr>index = 3, fieldName = ''flag'', dataType = ''bool''\<rparr> # [])
       (initial_state :: int state)) = example_measureFields"
  using identifyFieldTypes_partition [of example_columns "initial_state :: int state"
      "\<lparr>index = 3, fieldName = ''flag'', dataType = ''bool''\<rparr>" "[]"]
  by (simp add: isHierarchyType_def isMeasureType_def example_columns_def toField_def
      example_hierarchyFields_def example_measureFields_def)

subsection \<open>The expansion set\<close>

lemma renderTable_expandedNodes [simp]:
  "expandedNodes (snd (renderTable st)) = expandedNodes st"
  by (simp add: renderTable_def Let_def split: list.splits option.splits)

lemma set_fold_removeAll: "set (fold (\<lambda>p. removeAll p) ps xs) = set xs - set ps"
  by (induction ps arbitrary: xs) auto

lemma toggleNode_collapse:
  "join path \<in> set (expandedNodes st) \<Longrightarrow>
     set (expandedNodes (snd (toggleNode path st))) =
       set (expandedNodes st) - {p. p = join path \<or> prefix (join path @ ''|'') p}"
  by (auto simp: toggleNode_def Let_def set_fold_removeAll)

lemma toggleNode_expand:
  "join path \<notin> set (expandedNodes st) \<Longrightarrow>
     expandedNodes (snd (toggleNode path st)) = expandedNodes st @ [join path]"
  by (simp add: toggleNode_def Let_def)

lemma join_two: "join [a, b] = a @ ''|'' @ b"
  by simp

text \<open>
  C6. With \<open>k\<close> the path key of \<open>path\<close>: if \<open>k\<close> is in the expansion set, \<open>toggleNode\<close>
  removes \<open>k\<close> and every member that starts with \<open>k\<close> followed by \<open>|\<close>, and nothing
  else; if \<open>k\<close> is absent it adds \<open>k\<close> alone and removes nothing. So after expanding \<open>A\<close>
  and then \<open>A|B\<close>, collapsing \<open>A\<close> leaves neither \<open>A\<close> nor \<open>A|B\<close> in the set.
\<close>

theorem toggleNode_cascade:
  "(join path \<in> set (expandedNodes st) \<longrightarrow>
      set (expandedNodes (snd (toggleNode path st))) =
        set (expandedNodes st) - {p. p = join path \<or> prefix (join path @ ''|'') p}) \<and>
   (join path \<notin> set (expandedNodes st) \<longrightarrow>
      expandedNodes (snd (toggleNode path st)) = expandedNodes st @ [join path] \<and>
      set (expandedNodes (snd (toggleNode path st))) = insert (join path) (set (expandedNodes st))) \<and>
   (a \<notin> set (expandedNodes st) \<and> a @ ''|'' @ b \<notin> set (expandedNodes st) \<longrightarrow>
      a \<notin> set (expandedNodes (snd (toggleNode [a] (snd (toggleNode [a, b] (snd (toggleNode [a] st))))))) \<and>
      a @ ''|'' @ b \<notin> set (expandedNodes (snd (toggleNode [a] (snd (toggleNode [a, b] (snd (toggleNode [a] st))))))))"
proof (intro conjI impI)
  assume "join path \<in> set (expandedNodes st)"
  then show "set (expandedNodes (snd (toggleNode path st))) =
        set (expandedNodes st) - {p. p = join path \<or> prefix (join path @ ''|'') p}"
    by (rule toggleNode_collapse)
next
  assume "join path \<notin> set (expandedNodes st)"
  then show "expandedNodes (snd (toggleNode path st)) = expandedNodes st @ [join path]"
    by (rule toggleNode_expand)
next
  assume "join path \<notin> set (expandedNodes st)"
  then show "set (expandedNodes (snd (toggleNode path st))) = insert (join path) (set (expandedNodes st))"
    by (simp add: toggleNode_expand)
next
  assume absent: "a \<notin> set (expandedNodes st) \<and> a @ ''|'' @ b \<notin> set (expandedNodes st)"
  define st1 where "st1 = snd (toggleNode [a] st)"
  define st2 where "st2 = snd (toggleNode [a, b] st1)"
  have e1: "expandedNodes st1 = expandedNodes st @ [a]"
    using absent by (simp add: st1_def toggleNode_expand)
  have "a @ ''|'' @ b \<noteq> a" by simp
  with absent e1 have "join [a, b] \<notin> set (expandedNodes st1)"
    by simp
  then have e2: "expandedNodes st2 = expandedNodes st1 @ [a @ ''|'' @ b]"
    by (simp add: st2_def toggleNode_expand)
  have "join [a] \<in> set (expandedNodes st2)"
    by (simp add: e1 e2)
  then have e3: "set (expandedNodes (snd (toggleNode [a] st2))) =
      set (expandedNodes st2) - {p. p = a \<or> prefix (a @ ''|'') p}"
    by (simp add: toggleNode_collapse)
  show "a \<notin> set (expandedNodes (snd (toggleNode [a] (snd (toggleNode [a, b] (snd (toggleNode [a] st)))))))"
    using e3 by (simp add: st1_def st2_def)
  show "a @ ''|'' @ b \<notin> set (expandedNodes (snd (toggleNode [a] (snd (toggleNode [a, b] (snd (toggleNode [a] st)))))))"
    using e3 by (simp add: st1_def st2_def)
qed

theorem toggleNode_cascade_witness:
  "join [''A''] \<in> set [''A'', ''A|B'', ''AB''] \<and>
   set (expandedNodes (snd (toggleNode [''A'']
      ((initial_state :: int state)\<lparr>expandedNodes := [''A'', ''A|B'', ''AB'']\<rparr>)))) = {''AB''} \<and>
   join [''A''] \<notin> set (expandedNodes (initial_state :: int state)) \<and>
   ''A|B'' \<notin> set (expandedNodes (initial_state :: int state)) \<and>
   expandedNodes (snd (toggleNode [''A''] (initial_state :: int state))) = [''A''] \<and>
   ''A'' \<notin> set (expandedNodes (snd (toggleNode [''A''] (snd (toggleNode [''A'', ''B'']
      (snd (toggleNode [''A''] (initial_state :: int state)))))))) \<and>
   ''A|B'' \<notin> set (expandedNodes (snd (toggleNode [''A''] (snd (toggleNode [''A'', ''B'']
      (snd (toggleNode [''A''] (initial_state :: int state))))))))"
proof -
  let ?st = "(initial_state :: int state)\<lparr>expandedNodes := [''A'', ''A|B'', ''AB'']\<rparr>"
  have set_eq: "set [''A'', ''A|B'', ''AB''] - {p. p = ''A'' \<or> prefix ''A|'' p} = {''AB''}"
    by (simp add: insert_Diff_if)
  have c1: "set (expandedNodes (snd (toggleNode [''A''] ?st))) = {''AB''}"
    using toggleNode_cascade [of "[''A'']" ?st "''A''" "''B''"] set_eq by simp
  have c2: "expandedNodes (snd (toggleNode [''A''] (initial_state :: int state))) = [''A'']"
    using toggleNode_cascade [of "[''A'']" "initial_state :: int state" "''A''" "''B''"]
    by (simp add: initial_state_def)
  have c3: "''A'' \<notin> set (expandedNodes (snd (toggleNode [''A''] (snd (toggleNode [''A'', ''B'']
      (snd (toggleNode [''A''] (initial_state :: int state)))))))) \<and>
   ''A|B'' \<notin> set (expandedNodes (snd (toggleNode [''A''] (snd (toggleNode [''A'', ''B'']
      (snd (toggleNode [''A''] (initial_state :: int state))))))))"
    using toggleNode_cascade [of "[''A'']" "initial_state :: int state" "''A''" "''B''"]
    by (simp add: initial_state_def)
  show ?thesis
    using c1 c2 c3 by (simp add: initial_state_def)
qed

text \<open>
  C7. Two calls of \<open>toggleNode\<close> with the same path, one after the other, leave the
  membership of its path key in the expansion set as it was before the first.
\<close>

theorem toggleNode_twice:
  "(join path \<in> set (expandedNodes (snd (toggleNode path (snd (toggleNode path st)))))) =
   (join path \<in> set (expandedNodes st))"
proof (cases "join path \<in> set (expandedNodes st)")
  case True
  then have "join path \<notin> set (expandedNodes (snd (toggleNode path st)))"
    by (simp add: toggleNode_collapse)
  then have "expandedNodes (snd (toggleNode path (snd (toggleNode path st)))) =
      expandedNodes (snd (toggleNode path st)) @ [join path]"
    by (rule toggleNode_expand)
  with True show ?thesis by simp
next
  case False
  then have "join path \<in> set (expandedNodes (snd (toggleNode path st)))"
    by (simp add: toggleNode_expand)
  then have "join path \<notin> set (expandedNodes (snd (toggleNode path (snd (toggleNode path st)))))"
    by (simp add: toggleNode_collapse)
  with False show ?thesis by simp
qed

theorem toggleNode_twice_witness:
  "join [''A'', ''B''] \<in> set (expandedNodes (snd (toggleNode [''A'', ''B''] (snd (toggleNode [''A'', ''B'']
      ((initial_state :: int state)\<lparr>expandedNodes := [''A'', ''A|B'', ''A|B|C'']\<rparr>)))))) \<and>
   join [''A'', ''B''] \<in> set [''A'', ''A|B'', ''A|B|C'']"
  using toggleNode_twice [of "[''A'', ''B'']"
      "(initial_state :: int state)\<lparr>expandedNodes := [''A'', ''A|B'', ''A|B|C'']\<rparr>"]
  by simp

subsection \<open>The load pipeline\<close>


lemma renderTable_error_div [simp]: "error_div (snd (renderTable st)) = error_div st"
  by (simp add: renderTable_def Let_def split: list.splits option.splits)










subsection \<open>The end-to-end example\<close>

lemma example_tree:
  "buildHierarchicalTree ToString_int example_hierarchyFields example_measureFields example_rows =
     Some [(''US'', Node (JString ''US'') 0 [(''sales'', JNumber 50)]
              [(''CA'', Node (JString ''CA'') 1 [(''sales'', JNumber 100)] [] False),
               (''TX'', Node (JString ''TX'') 1 [(''sales'', JNumber 50)] [] False)] True),
           (''CA'', Node (JString ''CA'') 0 [(''sales'', JNumber 30)]
              [(''ON'', Node (JString ''ON'') 1 [(''sales'', JNumber 30)] [] False)] True)]"
  unfolding example_hierarchyFields_def example_measureFields_def example_rows_def
  by code_simp

lemma example_expanded:
  "map data_path (the (table_body (table (snd (toggleNode [''US'']
      (loadData ToString_int (Inr \<lparr>columns = example_columns, pages = [example_rows]\<rparr>)
         initial_state)))))) = [''CA'', ''US'', ''US|CA'', ''US|TX'']"
  unfolding example_hierarchyFields_def example_measureFields_def example_rows_def
    example_columns_def initial_state_def
  by code_simp

text \<open>
  C4, as the specification states it, fails: the node \<open>US\<close> of the example has two
  children, \<open>CA\<close> and \<open>TX\<close>, not one.
\<close>

theorem end_to_end_example_counterexample:
  "\<not> (length (children (the (map_of (the (buildHierarchicalTree ToString_int
           example_hierarchyFields example_measureFields example_rows)) ''CA''))) = 1 \<and>
       length (children (the (map_of (the (buildHierarchicalTree ToString_int
           example_hierarchyFields example_measureFields example_rows)) ''US''))) = 1)"
  by (simp add: example_tree)

text \<open>
  C4, amended. For the rows \<open>("US","CA",100)\<close>, \<open>("US","TX",50)\<close>, \<open>("CA","ON",30)\<close> with
  the hierarchy fields \<open>country\<close>, \<open>state\<close> and the measure \<open>sales\<close>, the tree has exactly
  two nodes of level 0: \<open>US\<close> with \<open>sales = 50\<close> and the two children \<open>CA\<close> and \<open>TX\<close>, and
  \<open>CA\<close> with \<open>sales = 30\<close> and the one child \<open>ON\<close>. Loading these rows and then expanding
  \<open>US\<close> alone renders the rows \<open>CA\<close>, \<open>US\<close>, \<open>US|CA\<close>, \<open>US|TX\<close>, in that order.
\<close>

theorem end_to_end_example:
  "buildHierarchicalTree ToString_int example_hierarchyFields example_measureFields example_rows =
     Some [(''US'', Node (JString ''US'') 0 [(''sales'', JNumber 50)]
              [(''CA'', Node (JString ''CA'') 1 [(''sales'', JNumber 100)] [] False),
               (''TX'', Node (JString ''TX'') 1 [(''sales'', JNumber 50)] [] False)] True),
           (''CA'', Node (JString ''CA'') 0 [(''sales'', JNumber 30)]
              [(''ON'', Node (JString ''ON'') 1 [(''sales'', JNumber 30)] [] False)] True)] \<and>
   hierarchyFields (identifyFieldTypes example_columns (initial_state :: int state)) =
     example_hierarchyFields \<and>
   measureFields (identifyFieldTypes example_columns (initial_state :: int state)) =
     example_measureFields \<and>
   map data_path (the (table_body (table (snd (toggleNode [''US'']
      (loadData ToString_int (Inr \<lparr>columns = example_columns, pages = [example_rows]\<rparr>)
         initial_state)))))) = [''CA'', ''US'', ''US|CA'', ''US|TX'']"
  using example_tree example_expanded
  by (simp add: identifyFieldTypes_def identifyColumn_def example_columns_def initial_state_def
      pushField_def example_hierarchyFields_def example_measureFields_def)

subsection \<open>The projection\<close>


declare renderTreeLevel.simps [simp del]



lemma row_path_makeRow [simp]: "row_path (makeRow E nd lvl p) = p"
  by (simp add: makeRow_def)














subsection \<open>One row of the tree builder\<close>

lemma descend_Cons:
  "descend S n mf row ((levelIndex, fld) # rest) cur =
     (case cell row (index fld) of
        None \<Rightarrow> None
      | Some v \<Rightarrow>
          if isNullValue v then descend S n mf row rest cur
          else if map_of cur (ToPropertyKey S v) = None \<and> ToPropertyKey S v \<in> set object_prototype_keys
          then (case storeMeasures_undefined row mf of
                  None \<Rightarrow> None
                | Some _ \<Rightarrow> (case descend_undefined row rest of None \<Rightarrow> None | Some _ \<Rightarrow> Some cur))
          else (case storeMeasures row mf (measures (nodeAt cur (ToPropertyKey S v) v levelIndex n)) of
                  None \<Rightarrow> None
                | Some ms \<Rightarrow>
                    (case descend S n mf row rest (children (nodeAt cur (ToPropertyKey S v) v levelIndex n)) of
                       None \<Rightarrow> None
                     | Some ch \<Rightarrow>
                         Some (AList.update (ToPropertyKey S v)
                           (Node (name (nodeAt cur (ToPropertyKey S v) v levelIndex n))
                                 (level (nodeAt cur (ToPropertyKey S v) v levelIndex n)) ms ch
                                 (hasChildren (nodeAt cur (ToPropertyKey S v) v levelIndex n))) cur))))"
proof (cases "cell row (index fld)")
  case None
  then show ?thesis by simp
next
  case (Some v)
  show ?thesis
    unfolding descend.simps Some nodeAt_def Let_def
    by (simp split: option.splits add: bind_eq_None_conv)
qed


declare descend.simps(2) [simp del]

lemma descend_Cons_cases:
  assumes "descend S n mf row ((levelIndex, fld) # rest) cur = Some cur'"
  obtains
    (skip) v where "cell row (index fld) = Some v" "isNullValue v"
      "descend S n mf row rest cur = Some cur'"
  | (inherited) v where "cell row (index fld) = Some v" "\<not> isNullValue v"
      "map_of cur (ToPropertyKey S v) = None" "ToPropertyKey S v \<in> set object_prototype_keys"
      "storeMeasures_undefined row mf = Some ()" "descend_undefined row rest = Some ()"
      "cur' = cur"
  | (visit) v ms ch where "cell row (index fld) = Some v" "\<not> isNullValue v"
      "map_of cur (ToPropertyKey S v) \<noteq> None \<or> ToPropertyKey S v \<notin> set object_prototype_keys"
      "storeMeasures row mf (measures (nodeAt cur (ToPropertyKey S v) v levelIndex n)) = Some ms"
      "descend S n mf row rest (children (nodeAt cur (ToPropertyKey S v) v levelIndex n)) = Some ch"
      "cur' = AList.update (ToPropertyKey S v)
         (Node (name (nodeAt cur (ToPropertyKey S v) v levelIndex n))
               (level (nodeAt cur (ToPropertyKey S v) v levelIndex n)) ms ch
               (hasChildren (nodeAt cur (ToPropertyKey S v) v levelIndex n))) cur"
proof -
  from assms obtain v where v: "cell row (index fld) = Some v"
    unfolding descend_Cons by (cases "cell row (index fld)") auto
  note eq = assms [unfolded descend_Cons v option.case]
  show thesis
  proof (cases "isNullValue v")
    case True
    with eq v skip show ?thesis by simp
  next
    case nn: False
    show ?thesis
    proof (cases "map_of cur (ToPropertyKey S v) = None \<and> ToPropertyKey S v \<in> set object_prototype_keys")
      case True
      with eq nn have "storeMeasures_undefined row mf = Some ()" "descend_undefined row rest = Some ()"
        "cur' = cur"
        by (simp_all split: option.splits)
      with True v nn inherited [of v] show ?thesis
        by blast
    next
      case False
      with eq nn obtain ms ch where
        "storeMeasures row mf (measures (nodeAt cur (ToPropertyKey S v) v levelIndex n)) = Some ms"
        "descend S n mf row rest (children (nodeAt cur (ToPropertyKey S v) v levelIndex n)) = Some ch"
        "cur' = AList.update (ToPropertyKey S v)
         (Node (name (nodeAt cur (ToPropertyKey S v) v levelIndex n))
               (level (nodeAt cur (ToPropertyKey S v) v levelIndex n)) ms ch
               (hasChildren (nodeAt cur (ToPropertyKey S v) v levelIndex n))) cur"
        by (simp split: option.splits if_splits)
      with False v nn visit [of v ms ch] show ?thesis
        by blast
    qed
  qed
qed

lemma lookup_path_Cons:
  "lookup_path t (k # ks) =
     (case map_of t k of None \<Rightarrow> None
      | Some nd \<Rightarrow> if ks = [] then Some nd else lookup_path (children nd) ks)"
  by (cases ks) (auto split: option.splits)

lemma lookup_path_Nil_tree [simp]: "lookup_path [] p = None"
  by (cases p) (simp_all add: lookup_path_Cons)

lemma setMeasure_keys: "fst ` set ms \<subseteq> fst ` set (setMeasure k v ms)"
  by (auto simp: setMeasure_def AList.dom_update)

lemma storeMeasures_keys:
  "storeMeasures row mf ms = Some ms' \<Longrightarrow> fst ` set ms \<subseteq> fst ` set ms'"
proof (induction mf arbitrary: ms)
  case Nil
  then show ?case by simp
next
  case (Cons m mf)
  then obtain v where "cell row (index m) = Some v"
    and "storeMeasures row mf (if v \<noteq> JNull \<and> v \<noteq> JUndefined
           then setMeasure (fieldName m) v ms else ms) = Some ms'"
    by (auto simp: bind_eq_Some_conv)
  from Cons.IH [OF this(2)] setMeasure_keys [of ms "fieldName m" v] show ?case
    by (auto split: if_splits)
qed

subsection \<open>What later rows leave untouched\<close>

lemma descend_keys:
  "descend S n mf row flds cur = Some cur' \<Longrightarrow> fst ` set cur \<subseteq> fst ` set cur'"
proof (induction flds arbitrary: cur cur')
  case Nil
  then show ?case by simp
next
  case (Cons a flds)
  obtain levelIndex fld where a: "a = (levelIndex, fld)" by (cases a)
  from Cons.prems [unfolded a] show ?case
  proof (cases rule: descend_Cons_cases)
    case (skip v)
    then show ?thesis using Cons.IH by blast
  next
    case (inherited v)
    then show ?thesis by simp
  next
    case (visit v ms ch)
    then show ?thesis by (auto simp: AList.dom_update)
  qed
qed

lemma descend_frame:
  "descend S n mf row flds cur = Some cur' \<Longrightarrow> lookup_path cur p = Some nd \<Longrightarrow>
     \<exists>nd'. lookup_path cur' p = Some nd' \<and> same_node nd nd'"
proof (induction flds arbitrary: cur cur' p)
  case Nil
  then show ?case by (simp add: same_node_def)
next
  case (Cons a flds)
  obtain levelIndex fld where a: "a = (levelIndex, fld)" by (cases a)
  from Cons.prems(1) [unfolded a] show ?case
  proof (cases rule: descend_Cons_cases)
    case (skip v)
    then show ?thesis using Cons.IH Cons.prems(2) by blast
  next
    case (inherited v)
    then show ?thesis using Cons.prems(2) by (auto simp: same_node_def)
  next
    case (visit v ms ch)
    let ?key = "ToPropertyKey S v"
    let ?node = "nodeAt cur ?key v levelIndex n"
    from Cons.prems(2) obtain k ks where p: "p = k # ks"
      by (cases p) auto
    show ?thesis
    proof (cases "k = ?key")
      case False
      with visit p Cons.prems(2) show ?thesis
        by (auto simp: lookup_path_Cons update_conv' same_node_def split: option.splits)
    next
      case True
      with Cons.prems(2) p obtain nd0 where nd0: "map_of cur ?key = Some nd0"
        by (auto simp: lookup_path_Cons split: option.splits)
      then have node: "?node = nd0" by (simp add: nodeAt_def)
      show ?thesis
      proof (cases "ks = []")
        case True
        with Cons.prems(2) p \<open>k = ?key\<close> nd0 have "nd = nd0"
          by (simp add: lookup_path_Cons)
        with visit node p True \<open>k = ?key\<close> storeMeasures_keys [OF visit(4)] descend_keys [OF visit(5)]
        show ?thesis
          by (simp add: lookup_path_Cons update_conv' same_node_def)
      next
        case False
        with Cons.prems(2) p \<open>k = ?key\<close> nd0 have "lookup_path (children nd0) ks = Some nd"
          by (simp add: lookup_path_Cons)
        from Cons.IH [OF visit(5) [unfolded node] this]
        obtain nd' where "lookup_path ch ks = Some nd'" "same_node nd nd'" by blast
        with visit p False \<open>k = ?key\<close> show ?thesis
          by (simp add: lookup_path_Cons update_conv')
      qed
    qed
  qed
qed


lemma same_node_refl [simp]: "same_node nd nd"
  by (simp add: same_node_def)

lemma same_node_trans:
  assumes "same_node a b" and "same_node b c"
  shows "same_node a c"
proof -
  from assms have "fst ` set (measures a) \<subseteq> fst ` set (measures c)"
    unfolding same_node_def by (elim conjE) (rule order_trans)
  moreover from assms have "fst ` set (children a) \<subseteq> fst ` set (children c)"
    unfolding same_node_def by (elim conjE) (rule order_trans)
  moreover from assms have "name c = name a" "level c = level a" "hasChildren c = hasChildren a"
    unfolding same_node_def by simp_all
  ultimately show ?thesis
    unfolding same_node_def by simp
qed

lemma addRows_append:
  "addRows S hf mf (xs @ ys) t = Option.bind (addRows S hf mf xs t) (addRows S hf mf ys)"
  by (induction xs arbitrary: t) (auto split: Option.bind_split)

lemma addRows_frame:
  "addRows S hf mf rows t = Some t' \<Longrightarrow> lookup_path t p = Some nd \<Longrightarrow>
     \<exists>nd'. lookup_path t' p = Some nd' \<and> same_node nd nd'"
proof (induction rows arbitrary: t nd)
  case Nil
  then show ?case by auto
next
  case (Cons row rows)
  from Cons.prems(1) obtain t1 where t1: "addRow S hf mf row t = Some t1"
    "addRows S hf mf rows t1 = Some t'"
    by (auto simp: bind_eq_Some_conv)
  from descend_frame [OF t1(1) [unfolded addRow_def] Cons.prems(2)]
  obtain nd1 where nd1: "lookup_path t1 p = Some nd1" "same_node nd nd1" by blast
  from Cons.IH [OF t1(2) nd1(1)] obtain nd' where "lookup_path t' p = Some nd'" "same_node nd1 nd'"
    by blast
  with nd1(2) show ?case
    by (blast intro: same_node_trans)
qed

text \<open>
  C10. A node that exists after some rows keeps its \<open>name\<close>, \<open>level\<close> and \<open>hasChildren\<close>
  through all further rows; they can only add entries to its \<open>measures\<close> or overwrite
  them, and add nodes below it.
\<close>

theorem buildHierarchicalTree_frame:
  assumes "buildHierarchicalTree S hf mf data = Some t"
    and "buildHierarchicalTree S hf mf (data @ later) = Some t'"
    and "lookup_path t p = Some nd"
  shows "\<exists>nd'. lookup_path t' p = Some nd' \<and>
           name nd' = name nd \<and> level nd' = level nd \<and> hasChildren nd' = hasChildren nd \<and>
           fst ` set (measures nd) \<subseteq> fst ` set (measures nd') \<and>
           fst ` set (children nd) \<subseteq> fst ` set (children nd')"
proof -
  from assms(1,2) have "addRows S hf mf later t = Some t'"
    by (simp add: buildHierarchicalTree_def addRows_append)
  from addRows_frame [OF this assms(3)] show ?thesis
    by (simp add: same_node_def)
qed

theorem buildHierarchicalTree_frame_witness:
  "buildHierarchicalTree ToString_int example_hierarchyFields example_measureFields
      [[JUndefined, JString ''X'', JNumber 1]] =
     Some [(''X'', Node (JString ''X'') 1 [(''sales'', JNumber 1)] [] False)] \<and>
   buildHierarchicalTree ToString_int example_hierarchyFields example_measureFields
      ([[JUndefined, JString ''X'', JNumber 1]] @ [[JString ''X'', JString ''Y'', JNumber 2]]) =
     Some [(''X'', Node (JString ''X'') 1 [(''sales'', JNumber 2)]
              [(''Y'', Node (JString ''Y'') 1 [(''sales'', JNumber 2)] [] False)] False)] \<and>
   lookup_path [(''X'', Node (JString ''X'') 1 [(''sales'', JNumber (1 :: int))] [] False)] [''X''] =
     Some (Node (JString ''X'') 1 [(''sales'', JNumber 1)] [] False) \<and>
   hasChildren (the (lookup_path (the (buildHierarchicalTree ToString_int example_hierarchyFields
      example_measureFields
      ([[JUndefined, JString ''X'', JNumber 1]] @ [[JString ''X'', JString ''Y'', JNumber 2]])))
      [''X''])) = False"
proof -
  have a: "buildHierarchicalTree ToString_int example_hierarchyFields example_measureFields
      [[JUndefined, JString ''X'', JNumber 1]] =
     Some [(''X'', Node (JString ''X'') 1 [(''sales'', JNumber 1)] [] False)]"
    unfolding example_hierarchyFields_def example_measureFields_def by code_simp
  have b: "buildHierarchicalTree ToString_int example_hierarchyFields example_measureFields
      ([[JUndefined, JString ''X'', JNumber 1]] @ [[JString ''X'', JString ''Y'', JNumber 2]]) =
     Some [(''X'', Node (JString ''X'') 1 [(''sales'', JNumber 2)]
              [(''Y'', Node (JString ''Y'') 1 [(''sales'', JNumber 2)] [] False)] False)]"
    unfolding example_hierarchyFields_def example_measureFields_def by code_simp
  have c: "lookup_path [(''X'', Node (JString ''X'') 1 [(''sales'', JNumber (1 :: int))] [] False)] [''X''] =
     Some (Node (JString ''X'') 1 [(''sales'', JNumber 1)] [] False)"
    by simp
  from buildHierarchicalTree_frame [OF a b c] a b c show ?thesis
    by auto
qed

subsection \<open>Depth and levels\<close>

lemma set_update_subset: "set (AList.update k v al) \<subseteq> insert (k, v) (set al)"
  by (induction al) auto

lemma snd_update_cases:
  "c \<in> snd ` set (AList.update k v al) \<Longrightarrow> c = v \<or> c \<in> snd ` set al"
  using set_update_subset [of k v al] by auto

lemma map_of_snd: "map_of al k = Some v \<Longrightarrow> v \<in> snd ` set al"
  by (force dest: map_of_SomeD)

lemma nodeAt_cases:
  obtains (old) "nodeAt cur key v i n \<in> snd ` set cur"
  | (new) "nodeAt cur key v i n = Node v i [] [] (int i < int n - 1)"
  by (cases "map_of cur key") (auto simp: nodeAt_def dest: map_of_snd)

lemma descend_distinct_keys:
  "descend S n mf row flds cur = Some cur' \<Longrightarrow> distinct (map fst cur) \<Longrightarrow>
   \<forall>c \<in> snd ` set cur. distinct_keys c \<Longrightarrow>
     distinct (map fst cur') \<and> (\<forall>c \<in> snd ` set cur'. distinct_keys c)"
proof (induction flds arbitrary: cur cur')
  case Nil
  then show ?case by simp
next
  case (Cons a flds)
  obtain levelIndex fld where a: "a = (levelIndex, fld)" by (cases a)
  from Cons.prems(1) [unfolded a] show ?case
  proof (cases rule: descend_Cons_cases)
    case (skip v)
    from Cons.IH [OF skip(3) Cons.prems(2,3)] show ?thesis .
  next
    case (inherited v)
    with Cons.prems(2,3) show ?thesis by simp
  next
    case (visit v ms ch)
    let ?node = "nodeAt cur (ToPropertyKey S v) v levelIndex n"
    have node: "distinct_keys ?node"
    proof (cases rule: nodeAt_cases [of cur "ToPropertyKey S v" v levelIndex n])
      case old
      with Cons.prems(3) show ?thesis by blast
    next
      case new
      then show ?thesis by simp
    qed
    then have "distinct (map fst (children ?node))"
      "\<forall>c \<in> snd ` set (children ?node). distinct_keys c"
      by (cases ?node; simp)+
    from Cons.IH [OF visit(5) this]
    have new: "distinct_keys (Node (name ?node) (level ?node) ms ch (hasChildren ?node))"
      by simp
    have "distinct_keys c" if "c \<in> snd ` set cur'" for c
    proof -
      from that have "c = Node (name ?node) (level ?node) ms ch (hasChildren ?node) \<or> c \<in> snd ` set cur"
        unfolding visit(6) by (rule snd_update_cases)
      with new Cons.prems(3) show ?thesis by blast
    qed
    moreover from Cons.prems(2) have "distinct (map fst cur')"
      unfolding visit(6) by (rule distinct_update)
    ultimately show ?thesis by blast
  qed
qed

lemma addRows_distinct_keys:
  "addRows S hf mf rows t = Some t' \<Longrightarrow> distinct (map fst t) \<Longrightarrow>
   \<forall>c \<in> snd ` set t. distinct_keys c \<Longrightarrow>
     distinct (map fst t') \<and> (\<forall>c \<in> snd ` set t'. distinct_keys c)"
proof (induction rows arbitrary: t)
  case Nil
  then show ?case by simp
next
  case (Cons row rows)
  from Cons.prems(1) obtain t1 where t1: "addRow S hf mf row t = Some t1"
    "addRows S hf mf rows t1 = Some t'"
    by (auto simp: bind_eq_Some_conv)
  from descend_distinct_keys [OF t1(1) [unfolded addRow_def] Cons.prems(2,3)]
  have "distinct (map fst t1)" "\<forall>c \<in> snd ` set t1. distinct_keys c"
    by simp_all
  from Cons.IH [OF t1(2) this] show ?case .
qed

lemma buildHierarchicalTree_distinct_keys:
  assumes "buildHierarchicalTree S hf mf data = Some tree"
  shows "distinct (map fst tree) \<and> (\<forall>c \<in> snd ` set tree. distinct_keys c)"
proof -
  have "distinct (map fst ([] :: 'a tree))" "\<forall>c \<in> snd ` set ([] :: 'a tree). distinct_keys c"
    by simp_all
  with assms [unfolded buildHierarchicalTree_def] show ?thesis
    by (rule addRows_distinct_keys)
qed

lemma descend_levels_within:
  "descend S n mf row (enumerate i fs) cur = Some cur' \<Longrightarrow> d \<le> i \<Longrightarrow> i + length fs \<le> n \<Longrightarrow>
     \<forall>c \<in> snd ` set cur. levels_within n d c \<Longrightarrow> \<forall>c \<in> snd ` set cur'. levels_within n d c"
proof (induction fs arbitrary: i d cur cur')
  case Nil
  then show ?case by simp
next
  case (Cons f fs)
  from Cons.prems(1) have "descend S n mf row ((i, f) # enumerate (Suc i) fs) cur = Some cur'"
    by simp
  then show ?case
  proof (cases rule: descend_Cons_cases)
    case (skip v)
    from Cons.IH [OF skip(3) _ _ Cons.prems(4)] Cons.prems(2,3) show ?thesis
      by simp
  next
    case (inherited v)
    with Cons.prems(4) show ?thesis by simp
  next
    case (visit v ms ch)
    let ?node = "nodeAt cur (ToPropertyKey S v) v i n"
    have node: "levels_within n d ?node"
    proof (cases rule: nodeAt_cases [of cur "ToPropertyKey S v" v i n])
      case old
      with Cons.prems(4) show ?thesis by blast
    next
      case new
      with Cons.prems(2,3) show ?thesis by simp
    qed
    then have "\<forall>c \<in> snd ` set (children ?node). levels_within n (Suc d) c"
      by (cases ?node) simp
    from Cons.IH [OF visit(5) _ _ this] Cons.prems(2,3)
    have ch: "\<forall>c \<in> snd ` set ch. levels_within n (Suc d) c"
      by simp
    from node have "d \<le> level ?node \<and> level ?node < n"
      by (cases ?node) simp
    with ch have new: "levels_within n d (Node (name ?node) (level ?node) ms ch (hasChildren ?node))"
      by simp
    show ?thesis
    proof
      fix c
      assume "c \<in> snd ` set cur'"
      then have "c = Node (name ?node) (level ?node) ms ch (hasChildren ?node) \<or> c \<in> snd ` set cur"
        unfolding visit(6) by (rule snd_update_cases)
      with new Cons.prems(4) show "levels_within n d c"
        by blast
    qed
  qed
qed

lemma levels_within_depth: "levels_within n d nd \<Longrightarrow> node_depth nd \<le> n - d"
proof (induction nd arbitrary: d)
  case (Node nm lv ms ch hc)
  have "node_depth c \<le> n - Suc d" if "c \<in> snd ` set ch" for c
  proof -
    from that obtain k where kc: "(k, c) \<in> set ch" by auto
    have "c \<in> Basic_BNFs.snds (k, c)"
      by (simp add: snds.simps)
    moreover from Node.prems that have "levels_within n (Suc d) c"
      by auto
    ultimately show ?thesis
      using Node.IH [OF kc] by blast
  qed
  then have M: "Max (insert 0 (node_depth ` snd ` set ch)) \<le> n - Suc d"
    by (subst Max_le_iff) auto
  from Node.prems have dn: "d < n"
    by simp
  have "node_depth (Node nm lv ms ch hc) = Suc (Max (insert 0 (node_depth ` snd ` set ch)))"
    by (simp only: node_depth.simps)
  with M dn show ?case
    by linarith
qed

lemma descend_all_null:
  "descend S n mf row lf cur = Some cur' \<Longrightarrow>
   \<forall>g \<in> snd ` set lf. case cell row (index g) of None \<Rightarrow> True | Some w \<Rightarrow> isNullValue w \<Longrightarrow>
     cur' = cur"
proof (induction lf)
  case Nil
  then show ?case by simp
next
  case (Cons a lf)
  obtain i f where a: "a = (i, f)" by (cases a)
  from Cons.prems(2) have rest: "\<forall>g \<in> snd ` set lf. case cell row (index g) of None \<Rightarrow> True | Some w \<Rightarrow> isNullValue w"
    by simp
  from Cons.prems(2) a have here: "case cell row (index f) of None \<Rightarrow> True | Some w \<Rightarrow> isNullValue w"
    by simp
  from Cons.prems(1) a have "descend S n mf row ((i, f) # lf) cur = Some cur'"
    by simp
  then show ?case
  proof (cases rule: descend_Cons_cases)
    case (skip v)
    from Cons.IH [OF skip(3) rest] show ?thesis .
  next
    case (inherited v)
    then show ?thesis by simp
  next
    case (visit v ms ch)
    with here show ?thesis by simp
  qed
qed

lemma descend_levels_trailing:
  "descend S n mf row (enumerate d fs) cur = Some cur' \<Longrightarrow> nulls_last row fs \<Longrightarrow>
     \<forall>c \<in> snd ` set cur. levels_exact d c \<Longrightarrow> \<forall>c \<in> snd ` set cur'. levels_exact d c"
proof (induction fs arbitrary: d cur cur')
  case Nil
  then show ?case by simp
next
  case (Cons f fs)
  from Cons.prems(2) have rest: "nulls_last row fs"
    by simp
  from Cons.prems(1) have "descend S n mf row ((d, f) # enumerate (Suc d) fs) cur = Some cur'"
    by simp
  then show ?case
  proof (cases rule: descend_Cons_cases)
    case (skip v)
    from Cons.prems(2) skip(1,2)
    have "\<forall>g \<in> set fs. case cell row (index g) of None \<Rightarrow> True | Some w \<Rightarrow> isNullValue w"
      by simp
    then have "\<forall>g \<in> snd ` set (enumerate (Suc d) fs). case cell row (index g) of None \<Rightarrow> True | Some w \<Rightarrow> isNullValue w"
      by (simp only: set_map [symmetric] map_snd_enumerate)
    with skip(3) have "cur' = cur"
      by (rule descend_all_null)
    with Cons.prems(3) show ?thesis by simp
  next
    case (inherited v)
    with Cons.prems(3) show ?thesis by simp
  next
    case (visit v ms ch)
    let ?node = "nodeAt cur (ToPropertyKey S v) v d n"
    have node: "levels_exact d ?node"
    proof (cases rule: nodeAt_cases [of cur "ToPropertyKey S v" v d n])
      case old
      with Cons.prems(3) show ?thesis by blast
    next
      case new
      then show ?thesis by simp
    qed
    then have "\<forall>c \<in> snd ` set (children ?node). levels_exact (Suc d) c"
      by (cases ?node) simp
    with visit(5) rest have ch: "\<forall>c \<in> snd ` set ch. levels_exact (Suc d) c"
      by (rule Cons.IH)
    from node have "level ?node = d"
      by (cases ?node) simp
    with ch have new: "levels_exact d (Node (name ?node) (level ?node) ms ch (hasChildren ?node))"
      by simp
    show ?thesis
    proof
      fix c
      assume "c \<in> snd ` set cur'"
      then have "c = Node (name ?node) (level ?node) ms ch (hasChildren ?node) \<or> c \<in> snd ` set cur"
        unfolding visit(6) by (rule snd_update_cases)
      with new Cons.prems(3) show "levels_exact d c"
        by blast
    qed
  qed
qed

lemma levels_exact_child_levels: "levels_exact d nd \<Longrightarrow> level nd = d \<and> child_levels nd"
proof (induction nd arbitrary: d)
  case (Node nm lv ms ch hc)
  have "level c = Suc lv \<and> child_levels c" if "c \<in> snd ` set ch" for c
  proof -
    from that obtain k where kc: "(k, c) \<in> set ch" by auto
    have "c \<in> Basic_BNFs.snds (k, c)"
      by (simp add: snds.simps)
    moreover from Node.prems that have "levels_exact (Suc lv) c"
      by auto
    ultimately show ?thesis
      using Node.IH [OF kc] by blast
  qed
  with Node.prems show ?case
    by simp
qed

lemma addRows_levels_within:
  "addRows S hf mf rows t = Some t' \<Longrightarrow> \<forall>c \<in> snd ` set t. levels_within (length hf) 0 c \<Longrightarrow>
     \<forall>c \<in> snd ` set t'. levels_within (length hf) 0 c"
proof (induction rows arbitrary: t)
  case Nil
  then show ?case by simp
next
  case (Cons row rows)
  from Cons.prems(1) obtain t1 where t1: "addRow S hf mf row t = Some t1"
    "addRows S hf mf rows t1 = Some t'"
    by (auto simp: bind_eq_Some_conv)
  from descend_levels_within [OF t1(1) [unfolded addRow_def] _ _ Cons.prems(2)]
  have "\<forall>c \<in> snd ` set t1. levels_within (length hf) 0 c"
    by simp
  from Cons.IH [OF t1(2) this] show ?case .
qed

lemma addRows_levels_trailing:
  "addRows S hf mf rows t = Some t' \<Longrightarrow> \<forall>row \<in> set rows. nulls_last row hf \<Longrightarrow>
   \<forall>c \<in> snd ` set t. levels_exact 0 c \<Longrightarrow> \<forall>c \<in> snd ` set t'. levels_exact 0 c"
proof (induction rows arbitrary: t)
  case Nil
  then show ?case by simp
next
  case (Cons row rows)
  from Cons.prems(1) obtain t1 where t1: "addRow S hf mf row t = Some t1"
    "addRows S hf mf rows t1 = Some t'"
    by (auto simp: bind_eq_Some_conv)
  from Cons.prems(2) have here: "nulls_last row hf" and rest: "\<forall>row \<in> set rows. nulls_last row hf"
    by simp_all
  from t1(1) [unfolded addRow_def] here Cons.prems(3)
  have "\<forall>c \<in> snd ` set t1. levels_exact 0 c"
    by (rule descend_levels_trailing)
  with t1(2) rest show ?case
    by (rule Cons.IH)
qed

text \<open>
  C2, as the specification states it, fails: after the row \<open>("A", "%null%", "C")\<close> the node
  \<open>A\<close> of level 0 has the child \<open>C\<close> of level 2.
\<close>

theorem buildHierarchicalTree_levels_counterexample:
  "buildHierarchicalTree ToString_int
      [\<lparr>index = 0, fieldName = ''country''\<rparr>, \<lparr>index = 1, fieldName = ''state''\<rparr>,
       \<lparr>index = 2, fieldName = ''city''\<rparr>]
      [\<lparr>index = 3, fieldName = ''sales''\<rparr>]
      [[JString ''A'', JString ''%null%'', JString ''C'', JNumber 7]] =
     Some [(''A'', Node (JString ''A'') 0 [(''sales'', JNumber 7)]
              [(''C'', Node (JString ''C'') 2 [(''sales'', JNumber 7)] [] False)] True)] \<and>
   level (Node (JString ''C'') 2 [(''sales'', JNumber (7 :: int))] [] False) \<noteq>
     Suc (level (Node (JString ''A'') 0 [(''sales'', JNumber (7 :: int))]
              [(''C'', Node (JString ''C'') 2 [(''sales'', JNumber 7)] [] False)] True))"
  by code_simp

text \<open>
  C2, amended. The depth of the tree that \<open>buildHierarchicalTree\<close> returns never exceeds
  the number of hierarchy fields, and a node with \<open>d\<close> nodes above it has a level field
  of at least \<open>d\<close> and below the number of hierarchy fields. When in no row a null,
  undefined or \<open>%null%\<close> cell of a hierarchy column is followed by a hierarchy column
  whose cell is none of these, the children of the root have level 0 and every child of
  a node of level \<open>L\<close> has level \<open>L + 1\<close>.
\<close>

theorem buildHierarchicalTree_levels:
  assumes "buildHierarchicalTree S hf mf data = Some tree"
  shows "tree_depth tree \<le> length hf \<and>
         (\<forall>nd \<in> snd ` set tree. levels_within (length hf) 0 nd) \<and>
         ((\<forall>row \<in> set data. nulls_last row hf) \<longrightarrow>
            (\<forall>nd \<in> snd ` set tree. level nd = 0 \<and> child_levels nd))"
proof -
  from assms have start: "addRows S hf mf data [] = Some tree"
    by (simp only: buildHierarchicalTree_def)
  have empty_w: "\<forall>c \<in> snd ` set ([] :: 'a tree). levels_within (length hf) 0 c"
    by simp
  have w: "\<forall>nd \<in> snd ` set tree. levels_within (length hf) 0 nd"
    using start empty_w by (rule addRows_levels_within)
  have d: "node_depth nd \<le> length hf" if "nd \<in> snd ` set tree" for nd
    using levels_within_depth [of "length hf" 0 nd] w that by simp
  have depth: "tree_depth tree \<le> length hf"
    unfolding tree_depth_def
  proof (rule Max.boundedI)
    show "finite (insert 0 (node_depth ` snd ` set tree))" by simp
    show "insert 0 (node_depth ` snd ` set tree) \<noteq> {}" by simp
    fix a
    assume "a \<in> insert 0 (node_depth ` snd ` set tree)"
    then show "a \<le> length hf"
      using d by blast
  qed
  have exact: "\<forall>nd \<in> snd ` set tree. level nd = 0 \<and> child_levels nd"
    if nn: "\<forall>row \<in> set data. nulls_last row hf"
  proof -
    have empty_e: "\<forall>c \<in> snd ` set ([] :: 'a tree). levels_exact 0 c"
      by simp
    have e: "\<forall>nd \<in> snd ` set tree. levels_exact 0 nd"
      using start nn empty_e by (rule addRows_levels_trailing)
    show ?thesis
    proof
      fix nd
      assume "nd \<in> snd ` set tree"
      with e have "levels_exact 0 nd" ..
      then show "level nd = 0 \<and> child_levels nd"
        by (rule levels_exact_child_levels)
    qed
  qed
  show ?thesis
  proof (intro conjI impI)
    show "tree_depth tree \<le> length hf" by (rule depth)
    show "\<forall>nd \<in> snd ` set tree. levels_within (length hf) 0 nd" by (rule w)
    assume "\<forall>row \<in> set data. nulls_last row hf"
    then show "\<forall>nd \<in> snd ` set tree. level nd = 0 \<and> child_levels nd" by (rule exact)
  qed
qed

theorem buildHierarchicalTree_levels_witness:
  "buildHierarchicalTree ToString_int
      [\<lparr>index = 0, fieldName = ''country''\<rparr>, \<lparr>index = 1, fieldName = ''state''\<rparr>,
       \<lparr>index = 2, fieldName = ''city''\<rparr>]
      [\<lparr>index = 3, fieldName = ''sales''\<rparr>]
      [[JString ''US'', JString ''CA'', JString ''LA'', JNumber 1],
       [JString ''US'', JString ''CA'', JNull, JNumber 2],
       [JString ''US'', JString ''%null%'', JUndefined, JNumber 3]] =
     Some [(''US'', Node (JString ''US'') 0 [(''sales'', JNumber 3)]
              [(''CA'', Node (JString ''CA'') 1 [(''sales'', JNumber 2)]
                  [(''LA'', Node (JString ''LA'') 2 [(''sales'', JNumber 1)] [] False)] True)] True)] \<and>
   list_all (\<lambda>row. nulls_last row
      [\<lparr>index = 0, fieldName = ''country''\<rparr>, \<lparr>index = 1, fieldName = ''state''\<rparr>,
       \<lparr>index = 2, fieldName = ''city''\<rparr>])
      [[JString ''US'', JString ''CA'', JString ''LA'', JNumber (1 :: int)],
       [JString ''US'', JString ''CA'', JNull, JNumber 2],
       [JString ''US'', JString ''%null%'', JUndefined, JNumber 3]] \<and>
   tree_depth [(''US'', Node (JString ''US'') 0 [(''sales'', JNumber (3 :: int))]
              [(''CA'', Node (JString ''CA'') 1 [(''sales'', JNumber 2)]
                  [(''LA'', Node (JString ''LA'') 2 [(''sales'', JNumber 1)] [] False)] True)] True)] \<le> 3 \<and>
   levels_within 3 0 (Node (JString ''US'') 0 [(''sales'', JNumber (3 :: int))]
              [(''CA'', Node (JString ''CA'') 1 [(''sales'', JNumber 2)]
                  [(''LA'', Node (JString ''LA'') 2 [(''sales'', JNumber 1)] [] False)] True)] True) \<and>
   level (Node (JString ''US'') 0 [(''sales'', JNumber (3 :: int))]
              [(''CA'', Node (JString ''CA'') 1 [(''sales'', JNumber 2)]
                  [(''LA'', Node (JString ''LA'') 2 [(''sales'', JNumber 1)] [] False)] True)] True) = 0 \<and>
   child_levels (Node (JString ''US'') 0 [(''sales'', JNumber (3 :: int))]
              [(''CA'', Node (JString ''CA'') 1 [(''sales'', JNumber 2)]
                  [(''LA'', Node (JString ''LA'') 2 [(''sales'', JNumber 1)] [] False)] True)] True)"
proof -
  let ?hf = "[\<lparr>index = 0, fieldName = ''country''\<rparr>, \<lparr>index = 1, fieldName = ''state''\<rparr>,
       \<lparr>index = 2, fieldName = ''city''\<rparr>]"
  let ?mf = "[\<lparr>index = 3, fieldName = ''sales''\<rparr>]"
  let ?data = "[[JString ''US'', JString ''CA'', JString ''LA'', JNumber (1 :: int)],
       [JString ''US'', JString ''CA'', JNull, JNumber 2],
       [JString ''US'', JString ''%null%'', JUndefined, JNumber 3]]"
  let ?nd = "Node (JString ''US'') 0 [(''sales'', JNumber (3 :: int))]
              [(''CA'', Node (JString ''CA'') 1 [(''sales'', JNumber 2)]
                  [(''LA'', Node (JString ''LA'') 2 [(''sales'', JNumber 1)] [] False)] True)] True"
  have b: "buildHierarchicalTree ToString_int ?hf ?mf ?data = Some [(''US'', ?nd)]"
    by code_simp
  have nl: "list_all (\<lambda>row. nulls_last row ?hf) ?data"
    by code_simp
  then have nn: "\<forall>row \<in> set ?data. nulls_last row ?hf"
    by (simp only: list_all_iff)
  note lv = buildHierarchicalTree_levels [OF b]
  have len: "length ?hf = 3"
    by simp
  from lv have depth: "tree_depth [(''US'', ?nd)] \<le> 3"
    unfolding len by (rule conjunct1)
  have mem: "?nd \<in> snd ` set [(''US'', ?nd)]"
    by simp
  from lv have "\<forall>nd \<in> snd ` set [(''US'', ?nd)]. levels_within 3 0 nd"
    unfolding len by (rule conjunct2 [THEN conjunct1])
  then have within: "levels_within 3 0 ?nd"
    using mem by (rule bspec)
  from lv have "(\<forall>row \<in> set ?data. nulls_last row ?hf) \<longrightarrow>
      (\<forall>nd \<in> snd ` set [(''US'', ?nd)]. level nd = 0 \<and> child_levels nd)"
    by (rule conjunct2 [THEN conjunct2])
  then have "\<forall>nd \<in> snd ` set [(''US'', ?nd)]. level nd = 0 \<and> child_levels nd"
    using nn by (rule mp)
  then have ex: "level ?nd = 0 \<and> child_levels ?nd"
    using mem by (rule bspec)
  show ?thesis
    by (intro conjI b nl depth within ex [THEN conjunct1] ex [THEN conjunct2])
qed

subsection \<open>Last write wins\<close>

lemma written_no_field:
  "\<forall>g \<in> set mf. fieldName g \<noteq> m \<Longrightarrow> written row mf m = None"
  by (induction mf) auto

lemma written_cell:
  "f \<in> set mf \<Longrightarrow> \<forall>g \<in> set mf. fieldName g = fieldName f \<longrightarrow> g = f \<Longrightarrow>
   fieldName f \<noteq> ''__proto__'' \<Longrightarrow> cell row (index f) = Some v \<Longrightarrow>
   v \<noteq> JNull \<Longrightarrow> v \<noteq> JUndefined \<Longrightarrow>
     written row mf (fieldName f) = Some v"
proof (induction mf)
  case Nil
  then show ?case by simp
next
  case (Cons h fs)
  show ?case
  proof (cases "f \<in> set fs")
    case True
    with Cons have "written row fs (fieldName f) = Some v" by simp
    then show ?thesis by simp
  next
    case False
    with Cons.prems(1) have h: "h = f" by simp
    from False Cons.prems(2) have "\<forall>g \<in> set fs. fieldName g \<noteq> fieldName f"
      by auto
    then have "written row fs (fieldName f) = None"
      by (rule written_no_field)
    with h Cons.prems(3-6) show ?thesis by simp
  qed
qed

lemma written_null:
  "\<forall>f \<in> set mf. fieldName f = m \<longrightarrow>
      cell row (index f) = Some JNull \<or> cell row (index f) = Some JUndefined \<Longrightarrow>
     written row mf m = None"
  by (induction mf) auto

lemma storeMeasures_map_of:
  "storeMeasures row mf ms = Some ms' \<Longrightarrow>
     map_of ms' m = (case written row mf m of None \<Rightarrow> map_of ms m | Some v \<Rightarrow> Some v)"
proof (induction mf arbitrary: ms)
  case Nil
  then show ?case by simp
next
  case (Cons f mf)
  from Cons.prems obtain v where v: "cell row (index f) = Some v"
    by (auto simp: bind_eq_Some_conv)
  show ?case
  proof (cases "v \<noteq> JNull \<and> v \<noteq> JUndefined")
    case True
    with Cons.prems v have "storeMeasures row mf (setMeasure (fieldName f) v ms) = Some ms'"
      by simp
    from Cons.IH [OF this]
    have "map_of ms' m =
        (case written row mf m of None \<Rightarrow> map_of (setMeasure (fieldName f) v ms) m | Some x \<Rightarrow> Some x)" .
    with v True show ?thesis
      by (auto simp: setMeasure_def update_conv' split: option.splits)
  next
    case False
    with Cons.prems v have "storeMeasures row mf ms = Some ms'" by auto
    from Cons.IH [OF this] v False show ?thesis
      by (auto split: option.splits)
  qed
qed

lemma storeMeasures_undefined_written:
  "storeMeasures_undefined row mf = Some () \<Longrightarrow> written row mf m = None"
proof (induction mf)
  case Nil
  then show ?case by simp
next
  case (Cons f mf)
  then show ?case
    by (auto simp: bind_eq_Some_conv split: if_splits)
qed

lemma value_at_Nil [simp]: "value_at t [] m = None"
  by (simp add: value_at_def)

lemma value_at_empty [simp]: "value_at [] p m = None"
  by (simp add: value_at_def)

lemma value_at_Cons:
  "value_at t (k # ks) m =
     (case map_of t k of None \<Rightarrow> None
      | Some nd \<Rightarrow> if ks = [] then map_of (measures nd) m else value_at (children nd) ks m)"
  by (simp add: value_at_def lookup_path_Cons split: option.splits)

lemma descend_value_at:
  "descend S n mf row flds cur = Some cur' \<Longrightarrow>
     value_at cur' p m =
       (if p \<noteq> [] \<and> prefix p (rowKeys S row (map snd flds)) \<and> written row mf m \<noteq> None
        then written row mf m else value_at cur p m)"
proof (induction flds arbitrary: cur cur' p)
  case Nil
  then show ?case by auto
next
  case (Cons a flds)
  obtain levelIndex fld where a: "a = (levelIndex, fld)" by (cases a)
  from Cons.prems [unfolded a] show ?case
  proof (cases rule: descend_Cons_cases)
    case (skip v)
    with Cons.IH [OF skip(3), of p] a show ?thesis by simp
  next
    case (inherited v)
    from inherited(5) have "written row mf m = None"
      by (rule storeMeasures_undefined_written)
    with inherited show ?thesis by simp
  next
    case (visit v ms ch)
    let ?key = "ToPropertyKey S v"
    let ?node = "nodeAt cur ?key v levelIndex n"
    have keys: "rowKeys S row (map snd (a # flds)) = ?key # rowKeys S row (map snd flds)"
      using visit(1,2) a by simp
    have old_ms: "map_of (measures ?node) m = value_at cur [?key] m"
      by (auto simp: nodeAt_def value_at_Cons split: option.splits)
    have old_ch: "value_at (children ?node) ks m = value_at cur (?key # ks) m" if "ks \<noteq> []" for ks
      using that by (auto simp: nodeAt_def value_at_Cons split: option.splits)
    show ?thesis
    proof (cases p)
      case Nil
      then show ?thesis by simp
    next
      case (Cons k ks)
      show ?thesis
      proof (cases "k = ?key")
        case False
        with Cons visit(6) keys show ?thesis
          by (simp add: value_at_Cons update_conv')
      next
        case True
        show ?thesis
        proof (cases "ks = []")
          case True
          with Cons \<open>k = ?key\<close> visit(6) keys storeMeasures_map_of [OF visit(4), of m] old_ms
          show ?thesis
            by (auto simp: value_at_Cons update_conv' split: option.splits)
        next
          case False
          have "value_at cur' p m = value_at ch ks m"
            using Cons \<open>k = ?key\<close> visit(6) False by (simp add: value_at_Cons update_conv')
          moreover have "prefix p (rowKeys S row (map snd (a # flds))) = prefix ks (rowKeys S row (map snd flds))"
            using Cons \<open>k = ?key\<close> keys by simp
          moreover have "value_at cur p m = value_at (children ?node) ks m"
            using Cons \<open>k = ?key\<close> old_ch [OF False] by simp
          moreover have "p \<noteq> []"
            using Cons by simp
          ultimately show ?thesis
            using Cons.IH [OF visit(5), of ks] False by auto
        qed
      qed
    qed
  qed
qed

lemma map_snd_enumerate [simp]: "map snd (enumerate i xs) = xs"
  by (induction xs arbitrary: i) simp_all

lemma addRow_value_at:
  "addRow S hf mf row t = Some t' \<Longrightarrow>
     value_at t' p m =
       (if p \<noteq> [] \<and> prefix p (rowKeys S row hf) \<and> written row mf m \<noteq> None
        then written row mf m else value_at t p m)"
  unfolding addRow_def using descend_value_at [of S "length hf" mf row "enumerate 0 hf" t t' p m]
  by simp

lemma addRows_value_at:
  "addRows S hf mf rows t = Some t' \<Longrightarrow>
     value_at t' p m =
       (case last_write S hf mf rows p m of Some v \<Rightarrow> Some v | None \<Rightarrow> value_at t p m)"
proof (induction rows arbitrary: t)
  case Nil
  then show ?case by simp
next
  case (Cons row rows)
  from Cons.prems obtain t1 where t1: "addRow S hf mf row t = Some t1"
    "addRows S hf mf rows t1 = Some t'"
    by (auto simp: bind_eq_Some_conv)
  show ?case
    unfolding Cons.IH [OF t1(2)] addRow_value_at [OF t1(1)]
    by (auto split: option.splits)
qed

text \<open>
  C5, as the specification states it, fails: the first two rows below share the full
  path \<open>US|CA\<close>, and the final \<open>sales\<close> of the node \<open>US\<close> on that path is the 50 of the third
  row, not the 70 of the later row of the pair.
\<close>

theorem buildHierarchicalTree_last_write_counterexample:
  "rowKeys ToString_int [JString ''US'', JString ''CA'', JNumber 100] example_hierarchyFields =
     rowKeys ToString_int [JString ''US'', JString ''CA'', JNumber 70] example_hierarchyFields \<and>
   written [JString ''US'', JString ''CA'', JNumber (70 :: int)] example_measureFields ''sales'' =
     Some (JNumber 70) \<and>
   value_at (the (buildHierarchicalTree ToString_int example_hierarchyFields example_measureFields
       [[JString ''US'', JString ''CA'', JNumber 100],
        [JString ''US'', JString ''CA'', JNumber 70],
        [JString ''US'', JString ''TX'', JNumber 50]])) [''US''] ''sales'' = Some (JNumber 50)"
  unfolding example_hierarchyFields_def example_measureFields_def
  by code_simp

text \<open>
  C5, amended. For every node and every measure name, the value stored at the end is
  the value of the last row in input order whose path passes through the node and that
  has a value for that name: a cell, in a measure field of that name other than
  \<open>__proto__\<close>, that is neither null nor undefined (the last such field of the row when
  several have the name); nothing is stored when there is no such row. So the cell of a
  row is stored at every node on the path of the row, replacing what earlier rows
  stored there, and it stays until a later row through the same node writes the measure
  again; a row whose cells for a measure are null or undefined leaves the entry of that
  measure as it was, at every node.
\<close>

theorem buildHierarchicalTree_last_write:
  assumes "buildHierarchicalTree S hf mf data = Some t"
    and "buildHierarchicalTree S hf mf (data @ [row]) = Some t'"
  shows "value_at t p m = last_write S hf mf data p m \<and>
         value_at t' p m = last_write S hf mf (data @ [row]) p m \<and>
         (p \<noteq> [] \<and> prefix p (rowKeys S row hf) \<and> written row mf m \<noteq> None \<longrightarrow>
            value_at t' p m = written row mf m) \<and>
         (p \<noteq> [] \<and> prefix p (rowKeys S row hf) \<and> f \<in> set mf \<and>
          (\<forall>g \<in> set mf. fieldName g = fieldName f \<longrightarrow> g = f) \<and> fieldName f \<noteq> ''__proto__'' \<and>
          cell row (index f) = Some v \<and> v \<noteq> JNull \<and> v \<noteq> JUndefined \<longrightarrow>
            value_at t' p (fieldName f) = Some v) \<and>
         ((\<forall>f \<in> set mf. fieldName f = m \<longrightarrow>
              cell row (index f) = Some JNull \<or> cell row (index f) = Some JUndefined) \<longrightarrow>
            value_at t' p m = value_at t p m)"
proof -
  have build: "value_at u q k = last_write S hf mf rows q k"
    if "buildHierarchicalTree S hf mf rows = Some u" for rows u q k
    using addRows_value_at [OF that [unfolded buildHierarchicalTree_def], of q k]
    by (simp split: option.splits)
  from assms have "addRows S hf mf [row] t = Some t'"
    by (simp add: buildHierarchicalTree_def addRows_append)
  then have step: "addRow S hf mf row t = Some t'"
    by (simp add: bind_eq_Some_conv)
  show ?thesis
  proof (intro conjI impI)
    show "value_at t p m = last_write S hf mf data p m"
      by (rule build [OF assms(1)])
    show "value_at t' p m = last_write S hf mf (data @ [row]) p m"
      by (rule build [OF assms(2)])
    assume "p \<noteq> [] \<and> prefix p (rowKeys S row hf) \<and> written row mf m \<noteq> None"
    then show "value_at t' p m = written row mf m"
      by (simp add: addRow_value_at [OF step])
  next
    assume a: "p \<noteq> [] \<and> prefix p (rowKeys S row hf) \<and> f \<in> set mf \<and>
          (\<forall>g \<in> set mf. fieldName g = fieldName f \<longrightarrow> g = f) \<and> fieldName f \<noteq> ''__proto__'' \<and>
          cell row (index f) = Some v \<and> v \<noteq> JNull \<and> v \<noteq> JUndefined"
    then have "written row mf (fieldName f) = Some v"
      by (intro written_cell) simp_all
    with a show "value_at t' p (fieldName f) = Some v"
      by (simp add: addRow_value_at [OF step])
  next
    assume "\<forall>f \<in> set mf. fieldName f = m \<longrightarrow>
              cell row (index f) = Some JNull \<or> cell row (index f) = Some JUndefined"
    then have "written row mf m = None"
      by (rule written_null)
    then show "value_at t' p m = value_at t p m"
      by (simp add: addRow_value_at [OF step])
  qed
qed

theorem buildHierarchicalTree_last_write_witness:
  "buildHierarchicalTree ToString_int example_hierarchyFields example_measureFields
      [[JString ''US'', JString ''CA'', JNumber 100]] =
     Some [(''US'', Node (JString ''US'') 0 [(''sales'', JNumber 100)]
              [(''CA'', Node (JString ''CA'') 1 [(''sales'', JNumber 100)] [] False)] True)] \<and>
   buildHierarchicalTree ToString_int example_hierarchyFields example_measureFields
      ([[JString ''US'', JString ''CA'', JNumber 100]] @ [[JString ''US'', JString ''CA'', JNumber 70]]) =
     Some [(''US'', Node (JString ''US'') 0 [(''sales'', JNumber 70)]
              [(''CA'', Node (JString ''CA'') 1 [(''sales'', JNumber 70)] [] False)] True)] \<and>
   prefix [''US'', ''CA'']
     (rowKeys ToString_int [JString ''US'', JString ''CA'', JNumber 70] example_hierarchyFields) \<and>
   \<lparr>index = 2, fieldName = ''sales''\<rparr> \<in> set example_measureFields \<and>
   cell [JString ''US'', JString ''CA'', JNumber (70 :: int)] 2 = Some (JNumber 70) \<and>
   written [JString ''US'', JString ''CA'', JNumber (70 :: int)] example_measureFields ''sales'' =
     Some (JNumber 70) \<and>
   value_at [(''US'', Node (JString ''US'') 0 [(''sales'', JNumber (70 :: int))]
              [(''CA'', Node (JString ''CA'') 1 [(''sales'', JNumber 70)] [] False)] True)]
     [''US'', ''CA''] ''sales'' = Some (JNumber 70) \<and>
   buildHierarchicalTree ToString_int example_hierarchyFields example_measureFields
      ([[JString ''US'', JString ''CA'', JNumber 100]] @ [[JString ''US'', JString ''CA'', JNull]]) =
     Some [(''US'', Node (JString ''US'') 0 [(''sales'', JNumber 100)]
              [(''CA'', Node (JString ''CA'') 1 [(''sales'', JNumber 100)] [] False)] True)] \<and>
   cell [JString ''US'', JString ''CA'', JNull :: int jsval] 2 = Some JNull"
proof -
  let ?r1 = "[JString ''US'', JString ''CA'', JNumber (100 :: int)]"
  let ?r2 = "[JString ''US'', JString ''CA'', JNumber (70 :: int)]"
  let ?r3 = "[JString ''US'', JString ''CA'', JNull :: int jsval]"
  let ?t1 = "[(''US'', Node (JString ''US'') 0 [(''sales'', JNumber (100 :: int))]
              [(''CA'', Node (JString ''CA'') 1 [(''sales'', JNumber 100)] [] False)] True)]"
  let ?t2 = "[(''US'', Node (JString ''US'') 0 [(''sales'', JNumber (70 :: int))]
              [(''CA'', Node (JString ''CA'') 1 [(''sales'', JNumber 70)] [] False)] True)]"
  let ?f = "\<lparr>index = 2, fieldName = ''sales''\<rparr>"
  have b1: "buildHierarchicalTree ToString_int example_hierarchyFields example_measureFields [?r1] =
      Some ?t1"
    unfolding example_hierarchyFields_def example_measureFields_def by code_simp
  have b2: "buildHierarchicalTree ToString_int example_hierarchyFields example_measureFields
      ([?r1] @ [?r2]) = Some ?t2"
    unfolding example_hierarchyFields_def example_measureFields_def by code_simp
  have b3: "buildHierarchicalTree ToString_int example_hierarchyFields example_measureFields
      ([?r1] @ [?r3]) = Some ?t1"
    unfolding example_hierarchyFields_def example_measureFields_def by code_simp
  have k: "prefix [''US'', ''CA''] (rowKeys ToString_int ?r2 example_hierarchyFields)"
    by (simp add: example_hierarchyFields_def cell_def isNullValue_def)
  have v: "written ?r2 example_measureFields ''sales'' = Some (JNumber 70)"
    by (simp add: example_measureFields_def cell_def)
  have fm: "?f \<in> set example_measureFields"
    "\<forall>g \<in> set example_measureFields. fieldName g = fieldName ?f \<longrightarrow> g = ?f"
    by (simp_all add: example_measureFields_def)
  have c2: "cell ?r2 (index ?f) = Some (JNumber 70)"
    by (simp add: cell_def)
  have c: "cell ?r3 2 = Some JNull"
    by (simp add: cell_def)
  have n: "\<forall>f \<in> set example_measureFields. fieldName f = ''sales'' \<longrightarrow>
      cell ?r3 (index f) = Some JNull \<or> cell ?r3 (index f) = Some JUndefined"
    by (simp add: example_measureFields_def cell_def)
  have names: "fieldName ?f \<noteq> ''__proto__''" "JNumber (70 :: int) \<noteq> JNull"
    "JNumber (70 :: int) \<noteq> JUndefined" "[''US'', ''CA''] \<noteq> ([] :: string list)"
    by simp_all
  note direct = buildHierarchicalTree_last_write [OF b1 b2, of "[''US'', ''CA'']" "''sales''" ?f
      "JNumber 70", THEN conjunct2, THEN conjunct2, THEN conjunct2, THEN conjunct1, rule_format]
  have "value_at ?t2 [''US'', ''CA''] (fieldName ?f) = Some (JNumber 70)"
    by (rule direct) (intro conjI names k fm c2)
  then have w1: "value_at ?t2 [''US'', ''CA''] ''sales'' = Some (JNumber 70)"
    by simp
  note skip = buildHierarchicalTree_last_write [OF b1 b3, of "[''US'', ''CA'']" "''sales''" ?f
      "JNumber 70", THEN conjunct2, THEN conjunct2, THEN conjunct2, THEN conjunct2, rule_format]
  have w2: "value_at ?t1 [''US'', ''CA''] ''sales'' = value_at ?t1 [''US'', ''CA''] ''sales''"
    by (rule skip) (use n in blast)
  show ?thesis
    by (intro conjI b1 b2 b3 k v c c2 [simplified] fm(1) w1)
qed

subsection \<open>Null cells in a hierarchy column\<close>

lemma descend_undefined_skip:
  "cell row (index f) = Some v \<Longrightarrow> isNullValue v \<Longrightarrow>
     descend_undefined row (pre @ (i, f) # post) = descend_undefined row (pre @ post)"
  by (induction pre) (auto split: Option.bind_split)

lemma descend_skip:
  "cell row (index f) = Some v \<Longrightarrow> isNullValue v \<Longrightarrow>
     descend S n mf row (pre @ (i, f) # post) cur = descend S n mf row (pre @ post) cur"
proof (induction pre arbitrary: cur)
  case Nil
  then show ?case by (simp add: descend_Cons)
next
  case (Cons a pre)
  obtain j g where a: "a = (j, g)" by (cases a)
  show ?case
    unfolding a append_Cons descend_Cons Cons.IH [OF Cons.prems]
      descend_undefined_skip [OF Cons.prems]
    by (rule refl)
qed

lemma rowKeys_prefix: "prefix (rowKeys S row xs) (rowKeys S row (xs @ ys))"
  by (induction xs) (auto split: option.splits)

lemma descend_created:
  "descend S n mf row flds cur = Some cur' \<Longrightarrow> lookup_path cur' p = Some nd \<Longrightarrow>
   lookup_path cur p = None \<Longrightarrow>
     \<exists>v. (level nd, v) \<in> (\<lambda>(i, f). (i, cell row (index f))) ` set flds \<and>
         (\<exists>x. v = Some x \<and> \<not> isNullValue x)"
proof (induction flds arbitrary: cur cur' p)
  case Nil
  then show ?case by simp
next
  case (Cons a flds)
  obtain levelIndex fld where a: "a = (levelIndex, fld)" by (cases a)
  from Cons.prems(1) [unfolded a] show ?case
  proof (cases rule: descend_Cons_cases)
    case (skip v)
    from Cons.IH [OF skip(3) Cons.prems(2,3)] show ?thesis
      by auto
  next
    case (inherited v)
    with Cons.prems(2,3) show ?thesis by simp
  next
    case (visit v ms ch)
    let ?key = "ToPropertyKey S v"
    let ?node = "nodeAt cur ?key v levelIndex n"
    from Cons.prems(2) obtain k ks where p: "p = k # ks"
      by (cases p) auto
    show ?thesis
    proof (cases "k = ?key")
      case False
      with visit(6) p Cons.prems(2,3) show ?thesis
        by (simp add: lookup_path_Cons update_conv')
    next
      case True
      show ?thesis
      proof (cases "ks = []")
        case True
        with Cons.prems(3) p \<open>k = ?key\<close> have "map_of cur ?key = None"
          by (simp add: lookup_path_Cons split: option.splits)
        then have "level ?node = levelIndex"
          by (simp add: nodeAt_def)
        moreover from True p \<open>k = ?key\<close> visit(6) Cons.prems(2) have "level nd = level ?node"
          by (auto simp: lookup_path_Cons update_conv')
        ultimately have "(level nd, Some v) \<in> (\<lambda>(i, f). (i, cell row (index f))) ` set (a # flds)"
          using visit(1) a by force
        with visit(2) show ?thesis by blast
      next
        case False
        with p \<open>k = ?key\<close> visit(6) Cons.prems(2) have l': "lookup_path ch ks = Some nd"
          by (simp add: lookup_path_Cons update_conv')
        have "lookup_path (children ?node) ks = None"
          using Cons.prems(3) p \<open>k = ?key\<close> False
          by (auto simp: nodeAt_def lookup_path_Cons split: option.splits)
        from Cons.IH [OF visit(5) l' this] show ?thesis
          by auto
      qed
    qed
  qed
qed

text \<open>
  C1, as the specification states it, fails: the cell of level 1 of the row below is
  null, and the row still creates the node \<open>Austin\<close> at the deeper level 2.
\<close>

theorem addRow_null_level_counterexample:
  "cell [JString ''US'', JNull, JString ''Austin'', JNumber (5 :: int)] 1 = Some JNull \<and>
   buildHierarchicalTree ToString_int
      [\<lparr>index = 0, fieldName = ''country''\<rparr>, \<lparr>index = 1, fieldName = ''state''\<rparr>,
       \<lparr>index = 2, fieldName = ''city''\<rparr>]
      [\<lparr>index = 3, fieldName = ''sales''\<rparr>]
      [[JString ''US'', JNull, JString ''Austin'', JNumber 5]] =
     Some [(''US'', Node (JString ''US'') 0 [(''sales'', JNumber 5)]
              [(''Austin'', Node (JString ''Austin'') 2 [(''sales'', JNumber 5)] [] False)] True)]"
  by code_simp

text \<open>
  C1, amended. If the cell of a row at level \<open>L\<close> is null, undefined or \<open>%null%\<close>, the
  row skips that level and goes on: the row is processed as by the same \<open>forEach\<close>
  without its entry for level \<open>L\<close>, the other entries keeping their level indices, the
  number of hierarchy fields staying what it is, and the cursor staying where it was.
  So the row creates no node of level \<open>L\<close>, and the deeper levels of the row are still
  processed. The nodes of the levels before \<open>L\<close> with values that are not null receive
  the measure writes of the row: every value that the row has for a measure name (a
  cell, in a measure field of that name other than \<open>__proto__\<close>, that is neither null
  nor undefined) is stored at each of them.
\<close>

theorem addRow_null_level:
  assumes "L < length hf" and "cell row (index (hf ! L)) = Some v" and "isNullValue v"
  shows "addRow S hf mf row t =
           descend S (length hf) mf row
             (take L (enumerate 0 hf) @ drop (Suc L) (enumerate 0 hf)) t \<and>
         (addRow S hf mf row t = Some t' \<and> lookup_path t' q = Some nd \<and> level nd = L \<longrightarrow>
            lookup_path t q \<noteq> None) \<and>
         (addRow S hf mf row t = Some t' \<and> p \<noteq> [] \<and> prefix p (rowKeys S row (take L hf)) \<and>
          written row mf m \<noteq> None \<longrightarrow>
            value_at t' p m = written row mf m) \<and>
         (addRow S hf mf row t = Some t' \<and> p \<noteq> [] \<and> prefix p (rowKeys S row (take L hf)) \<and>
          f \<in> set mf \<and> (\<forall>g \<in> set mf. fieldName g = fieldName f \<longrightarrow> g = f) \<and>
          fieldName f \<noteq> ''__proto__'' \<and>
          cell row (index f) = Some x \<and> x \<noteq> JNull \<and> x \<noteq> JUndefined \<longrightarrow>
            value_at t' p (fieldName f) = Some x)"
proof (intro conjI impI)
  from assms(1) have "enumerate 0 hf =
      take L (enumerate 0 hf) @ (L, hf ! L) # drop (Suc L) (enumerate 0 hf)"
    using id_take_nth_drop [of L "enumerate 0 hf"] by (simp add: nth_enumerate_eq)
  then have "addRow S hf mf row t =
      descend S (length hf) mf row
        (take L (enumerate 0 hf) @ (L, hf ! L) # drop (Suc L) (enumerate 0 hf)) t"
    by (simp add: addRow_def)
  also have "\<dots> = descend S (length hf) mf row
        (take L (enumerate 0 hf) @ drop (Suc L) (enumerate 0 hf)) t"
    using assms(2,3) by (rule descend_skip)
  finally show "addRow S hf mf row t =
      descend S (length hf) mf row (take L (enumerate 0 hf) @ drop (Suc L) (enumerate 0 hf)) t" .
next
  assume a: "addRow S hf mf row t = Some t' \<and> lookup_path t' q = Some nd \<and> level nd = L"
  show "lookup_path t q \<noteq> None"
  proof
    assume "lookup_path t q = None"
    with a descend_created [of S "length hf" mf row "enumerate 0 hf" t t' q nd]
    obtain i f x where "(i, f) \<in> set (enumerate 0 hf)" "i = L" "cell row (index f) = Some x"
      "\<not> isNullValue x"
      by (auto simp: addRow_def)
    then have "cell row (index (hf ! L)) = Some x" "\<not> isNullValue x"
      by (auto simp: in_set_enumerate_eq)
    with assms(2,3) show False by simp
  qed
next
  assume a: "addRow S hf mf row t = Some t' \<and> p \<noteq> [] \<and> prefix p (rowKeys S row (take L hf)) \<and>
          written row mf m \<noteq> None"
  have "prefix (rowKeys S row (take L hf)) (rowKeys S row (take L hf @ drop L hf))"
    by (rule rowKeys_prefix)
  with a have "prefix p (rowKeys S row hf)"
    by (auto intro: prefix_order.order_trans)
  moreover from a have "addRow S hf mf row t = Some t'" "p \<noteq> []" "written row mf m \<noteq> None"
    by simp_all
  ultimately show "value_at t' p m = written row mf m"
    using addRow_value_at [of S hf mf row t t' p m] by simp
next
  assume a: "addRow S hf mf row t = Some t' \<and> p \<noteq> [] \<and> prefix p (rowKeys S row (take L hf)) \<and>
          f \<in> set mf \<and> (\<forall>g \<in> set mf. fieldName g = fieldName f \<longrightarrow> g = f) \<and>
          fieldName f \<noteq> ''__proto__'' \<and>
          cell row (index f) = Some x \<and> x \<noteq> JNull \<and> x \<noteq> JUndefined"
  have "prefix (rowKeys S row (take L hf)) (rowKeys S row (take L hf @ drop L hf))"
    by (rule rowKeys_prefix)
  with a have k: "prefix p (rowKeys S row hf)"
    by (auto intro: prefix_order.order_trans)
  from a have w: "written row mf (fieldName f) = Some x"
    by (intro written_cell) simp_all
  from a have "addRow S hf mf row t = Some t'" "p \<noteq> []"
    by simp_all
  with k w show "value_at t' p (fieldName f) = Some x"
    using addRow_value_at [of S hf mf row t t' p "fieldName f"] by simp
qed

theorem addRow_null_level_witness:
  "(1 :: nat) < length [\<lparr>index = 0, fieldName = ''country''\<rparr>, \<lparr>index = 1, fieldName = ''state''\<rparr>,
       \<lparr>index = 2, fieldName = ''city''\<rparr>] \<and>
   cell [JString ''US'', JNull, JString ''Austin'', JNumber (5 :: int)] 1 = Some JNull \<and>
   isNullValue (JNull :: int jsval) \<and>
   addRow ToString_int
      [\<lparr>index = 0, fieldName = ''country''\<rparr>, \<lparr>index = 1, fieldName = ''state''\<rparr>,
       \<lparr>index = 2, fieldName = ''city''\<rparr>]
      [\<lparr>index = 3, fieldName = ''sales''\<rparr>]
      [JString ''US'', JNull, JString ''Austin'', JNumber 5]
      [(''US'', Node (JString ''US'') 0 [(''sales'', JNumber 1)]
          [(''TX'', Node (JString ''TX'') 1 [(''sales'', JNumber 1)] [] True)] True)] =
     Some [(''US'', Node (JString ''US'') 0 [(''sales'', JNumber 5)]
          [(''TX'', Node (JString ''TX'') 1 [(''sales'', JNumber 1)] [] True),
           (''Austin'', Node (JString ''Austin'') 2 [(''sales'', JNumber 5)] [] False)] True)] \<and>
   lookup_path [(''US'', Node (JString ''US'') 0 [(''sales'', JNumber (1 :: int))]
          [(''TX'', Node (JString ''TX'') 1 [(''sales'', JNumber 1)] [] True)] True)]
     [''US'', ''TX''] \<noteq> None \<and>
   value_at [(''US'', Node (JString ''US'') 0 [(''sales'', JNumber (5 :: int))]
          [(''TX'', Node (JString ''TX'') 1 [(''sales'', JNumber 1)] [] True),
           (''Austin'', Node (JString ''Austin'') 2 [(''sales'', JNumber 5)] [] False)] True)]
     [''US''] ''sales'' = Some (JNumber 5)"
proof -
  let ?hf = "[\<lparr>index = 0, fieldName = ''country''\<rparr>, \<lparr>index = 1, fieldName = ''state''\<rparr>,
       \<lparr>index = 2, fieldName = ''city''\<rparr>]"
  let ?mf = "[\<lparr>index = 3, fieldName = ''sales''\<rparr>]"
  let ?row = "[JString ''US'', JNull, JString ''Austin'', JNumber (5 :: int)]"
  let ?t = "[(''US'', Node (JString ''US'') 0 [(''sales'', JNumber (1 :: int))]
          [(''TX'', Node (JString ''TX'') 1 [(''sales'', JNumber 1)] [] True)] True)]"
  let ?t' = "[(''US'', Node (JString ''US'') 0 [(''sales'', JNumber (5 :: int))]
          [(''TX'', Node (JString ''TX'') 1 [(''sales'', JNumber 1)] [] True),
           (''Austin'', Node (JString ''Austin'') 2 [(''sales'', JNumber 5)] [] False)] True)]"
  have l: "(1 :: nat) < length ?hf" by simp
  have c: "cell ?row (index (?hf ! 1)) = Some JNull" by (simp add: cell_def)
  have n: "isNullValue (JNull :: int jsval)" by (simp add: isNullValue_def)
  have r: "addRow ToString_int ?hf ?mf ?row ?t = Some ?t'" by code_simp
  have q: "lookup_path ?t' [''US'', ''TX''] =
      Some (Node (JString ''TX'') 1 [(''sales'', JNumber 1)] [] True)"
    by simp
  have k: "prefix [''US''] (rowKeys ToString_int ?row (take 1 ?hf))"
    by (simp add: cell_def isNullValue_def)
  have v: "written ?row ?mf ''sales'' = Some (JNumber 5)"
    by (simp add: cell_def)
  note skipped = addRow_null_level [OF l c n, of ToString_int ?mf ?t ?t' "[''US'', ''TX'']"
      "Node (JString ''TX'') 1 [(''sales'', JNumber 1)] [] True" "[''US'']" "''sales''"
      "\<lparr>index = 3, fieldName = ''sales''\<rparr>" "JNumber 5"]
  have lv: "level (Node (JString ''TX'') 1 [(''sales'', JNumber (1 :: int))] [] True) = 1"
    by simp
  have old: "lookup_path ?t [''US'', ''TX''] \<noteq> None"
    by (rule skipped [THEN conjunct2, THEN conjunct1, rule_format]) (intro conjI r q lv)
  have ne: "[''US''] \<noteq> ([] :: string list)" "written ?row ?mf ''sales'' \<noteq> None"
    using v by simp_all
  have "value_at ?t' [''US''] ''sales'' = written ?row ?mf ''sales''"
    by (rule skipped [THEN conjunct2, THEN conjunct2, THEN conjunct1, rule_format])
       (intro conjI r ne k)
  then have w: "value_at ?t' [''US''] ''sales'' = Some (JNumber 5)"
    unfolding v .
  have fm: "\<lparr>index = 3, fieldName = ''sales''\<rparr> \<in> set ?mf"
    "\<forall>g \<in> set ?mf. fieldName g = fieldName \<lparr>index = 3, fieldName = ''sales''\<rparr> \<longrightarrow>
       g = \<lparr>index = 3, fieldName = ''sales''\<rparr>"
    "fieldName \<lparr>index = 3, fieldName = ''sales''\<rparr> \<noteq> ''__proto__''"
    "cell ?row (index \<lparr>index = 3, fieldName = ''sales''\<rparr>) = Some (JNumber 5)"
    "JNumber (5 :: int) \<noteq> JNull" "JNumber (5 :: int) \<noteq> JUndefined"
    by (simp_all add: cell_def)
  have "value_at ?t' [''US''] (fieldName \<lparr>index = 3, fieldName = ''sales''\<rparr>) = Some (JNumber 5)"
    by (rule skipped [THEN conjunct2, THEN conjunct2, THEN conjunct2, rule_format])
       (intro conjI r ne(1) k fm)
  have c': "cell ?row 1 = Some JNull"
    by (simp add: cell_def)
  have old': "lookup_path ?t [''US'', ''TX''] \<noteq> None"
    by (rule old)
  show ?thesis
    by (intro conjI l c' n r old' w)
qed

end
